theory Spec2Isabelle
  imports Main
begin

section \<open>Errors and basic string functions\<close>

text \<open>
  The exceptions that the modelled code can raise.  \<open>Exception\<close> is the generic
  exception of a \<^verbatim>\<open>raise Exception(...)\<close> statement, carrying its message.  \<open>OSError\<close> stands
  for every failure of a file or process operation (\<^verbatim>\<open>FileNotFoundError\<close>,
  \<^verbatim>\<open>PermissionError\<close> and the like).
\<close>

datatype error = ValueError | OverflowError | IndexError | OSError | Exception string

text \<open>Python's \<^verbatim>\<open>str(n)\<close> for a non-negative integer: its decimal digits.\<close>

definition digit_char :: "nat \<Rightarrow> char" where
  "digit_char n = ''0123456789'' ! (n mod 10)"

fun str_nat :: "nat \<Rightarrow> string" where
  "str_nat n = (if n < 10 then [digit_char n] else str_nat (n div 10) @ [digit_char n])"

declare str_nat.simps [simp del]

text \<open>\<^verbatim>\<open>s.rjust(width, fill)\<close>: pad on the left up to the width, never truncate.\<close>

definition rjust :: "nat \<Rightarrow> char \<Rightarrow> string \<Rightarrow> string" where
  "rjust width fill s = replicate (width - length s) fill @ s"

definition is_digit :: "char \<Rightarrow> bool" where
  "is_digit c = (c \<in> set ''0123456789'')"

definition digit_val :: "char \<Rightarrow> int" where
  "digit_val c = int (of_char c) - 48"


section \<open>Dates: the part of \<^verbatim>\<open>datetime\<close> that the scripts use\<close>

text \<open>
  A \<^verbatim>\<open>datetime\<close> at midnight is represented by its proleptic Gregorian ordinal
  (\<^verbatim>\<open>toordinal()\<close>: day 1 is 0001-01-01), the number on which the library itself
  compares dates and adds a \<^verbatim>\<open>timedelta\<close>.  A \<^verbatim>\<open>timedelta\<close> of
  whole days is its number of days.  The representable dates are 0001-01-01 to
  9999-12-31; arithmetic leaving that range raises \<^verbatim>\<open>OverflowError\<close>.
  The calendar functions follow the library's \<^verbatim>\<open>_ymd2ord\<close> and \<^verbatim>\<open>_ord2ymd\<close>.
\<close>

type_synonym datetime = int
type_synonym timedelta = int

definition is_leap :: "int \<Rightarrow> bool" where
  "is_leap year = (year mod 4 = 0 \<and> (year mod 100 \<noteq> 0 \<or> year mod 400 = 0))"

definition days_before_year :: "int \<Rightarrow> int" where
  "days_before_year year =
     (let y = year - 1 in y * 365 + y div 4 - y div 100 + y div 400)"

definition DAYS_IN_MONTH :: "int list" where
  "DAYS_IN_MONTH = [-1, 31, 28, 31, 30, 31, 30, 31, 31, 30, 31, 30, 31]"

definition DAYS_BEFORE_MONTH :: "int list" where
  "DAYS_BEFORE_MONTH = [-1, 0, 31, 59, 90, 120, 151, 181, 212, 243, 273, 304, 334]"

definition days_in_month :: "int \<Rightarrow> int \<Rightarrow> int" where
  "days_in_month year month =
     (if month = 2 \<and> is_leap year then 29 else DAYS_IN_MONTH ! nat month)"

definition days_before_month :: "int \<Rightarrow> int \<Rightarrow> int" where
  "days_before_month year month =
     DAYS_BEFORE_MONTH ! nat month + (if month > 2 \<and> is_leap year then 1 else 0)"

definition ymd2ord :: "int \<Rightarrow> int \<Rightarrow> int \<Rightarrow> int" where
  "ymd2ord year month day =
     days_before_year year + days_before_month year month + day"

definition ord2ymd :: "int \<Rightarrow> int \<times> int \<times> int" where
  "ord2ymd n0 =
     (let n = n0 - 1;
          n400 = n div 146097; n = n mod 146097;
          year = n400 * 400 + 1;
          n100 = n div 36524; n = n mod 36524;
          n4 = n div 1461; n = n mod 1461;
          n1 = n div 365; n = n mod 365;
          year = year + n100 * 100 + n4 * 4 + n1
      in if n1 = 4 \<or> n100 = 4 then (year - 1, 12, 31)
         else
           let leapyear = (n1 = 3 \<and> (n4 \<noteq> 24 \<or> n100 = 3));
               month = (n + 50) div 32;
               preceding = DAYS_BEFORE_MONTH ! nat month
                           + (if month > 2 \<and> leapyear then 1 else 0)
           in if preceding > n
              then let month = month - 1;
                       preceding = preceding - (DAYS_IN_MONTH ! nat month
                                     + (if month = 2 \<and> leapyear then 1 else 0))
                   in (year, month, n - preceding + 1)
              else (year, month, n - preceding + 1))"

definition MAXORDINAL :: int where
  "MAXORDINAL = 3652059"

definition MAX_DELTA_DAYS :: int where
  "MAX_DELTA_DAYS = 999999999"

text \<open>\<^verbatim>\<open>timedelta(days=n)\<close>.\<close>

definition timedelta_days :: "int \<Rightarrow> error + timedelta" where
  "timedelta_days n = (if \<bar>n\<bar> > MAX_DELTA_DAYS then Inl OverflowError else Inr n)"

text \<open>\<^verbatim>\<open>t + delta\<close> on a \<^verbatim>\<open>datetime\<close>.\<close>

definition datetime_add :: "datetime \<Rightarrow> timedelta \<Rightarrow> error + datetime" where
  "datetime_add t delta =
     (if 1 \<le> t + delta \<and> t + delta \<le> MAXORDINAL then Inr (t + delta) else Inl OverflowError)"

text \<open>
  \<^verbatim>\<open>datetime.strptime(s, '%Y%m%d')\<close> on ASCII text.  The library matches the regular
  expression \<^verbatim>\<open>(\d\d\d\d)(1[0-2]|0[1-9]|[1-9])(3[0-1]|[1-2]\d|0[1-9]|[1-9]| [1-9])\<close>
  at the start of the text, alternatives tried left to right, the month backtracking
  when no day follows; text left over after the match and a day that the month does
  not have are a \<^verbatim>\<open>ValueError\<close>, as is the year 0.
\<close>

definition month_alts :: "string \<Rightarrow> (int \<times> string) list" where
  "month_alts s =
     (case s of
        a # b # r \<Rightarrow>
          (if a = CHR ''1'' \<and> b \<in> set ''012'' then [(10 + digit_val b, r)]
           else if a = CHR ''0'' \<and> b \<in> set ''123456789'' then [(digit_val b, r)]
           else [])
      | _ \<Rightarrow> [])
     @ (case s of
          a # r \<Rightarrow> (if a \<in> set ''123456789'' then [(digit_val a, r)] else [])
        | [] \<Rightarrow> [])"

definition day_match :: "string \<Rightarrow> (int \<times> string) option" where
  "day_match s =
     (case s of
        [] \<Rightarrow> None
      | [a] \<Rightarrow> (if a \<in> set ''123456789'' then Some (digit_val a, []) else None)
      | a # b # r \<Rightarrow>
          (if a = CHR ''3'' \<and> b \<in> set ''01'' then Some (30 + digit_val b, r)
           else if a \<in> set ''12'' \<and> is_digit b then Some (10 * digit_val a + digit_val b, r)
           else if a = CHR ''0'' \<and> b \<in> set ''123456789'' then Some (digit_val b, r)
           else if a \<in> set ''123456789'' then Some (digit_val a, b # r)
           else if a = CHR '' '' \<and> b \<in> set ''123456789'' then Some (digit_val b, r)
           else None))"

fun first_month_day :: "(int \<times> string) list \<Rightarrow> (int \<times> int \<times> string) option" where
  "first_month_day [] = None"
| "first_month_day ((m, r) # alts) =
     (case day_match r of
        Some (d, rest) \<Rightarrow> Some (m, d, rest)
      | None \<Rightarrow> first_month_day alts)"

definition strptime :: "string \<Rightarrow> error + datetime" where
  "strptime s =
     (case s of
        y1 # y2 # y3 # y4 # r \<Rightarrow>
          (if is_digit y1 \<and> is_digit y2 \<and> is_digit y3 \<and> is_digit y4 then
             (case first_month_day (month_alts r) of
                None \<Rightarrow> Inl ValueError
              | Some (month, day, rest) \<Rightarrow>
                  (let year = 1000 * digit_val y1 + 100 * digit_val y2
                              + 10 * digit_val y3 + digit_val y4
                   in if rest \<noteq> [] then Inl ValueError
                      else if year < 1 \<or> day > days_in_month year month then Inl ValueError
                      else Inr (ymd2ord year month day)))
           else Inl ValueError)
      | _ \<Rightarrow> Inl ValueError)"

text \<open>
  \<^verbatim>\<open>t.strftime('%Y%m%d')\<close>, as the C library of Linux formats it: \<^verbatim>\<open>%Y\<close> is the year
  in decimal without padding (so it has fewer than four digits before the year 1000),
  \<^verbatim>\<open>%m\<close> and \<^verbatim>\<open>%d\<close> are two digits each, zero padded.
\<close>

definition strftime :: "datetime \<Rightarrow> string" where
  "strftime t =
     (case ord2ymd t of
        (y, m, d) \<Rightarrow> str_nat (nat y)
                     @ rjust 2 CHR ''0'' (str_nat (nat m))
                     @ rjust 2 CHR ''0'' (str_nat (nat d)))"


section \<open>The partitioner: \<^verbatim>\<open>breakDownDates\<close>\<close>

text \<open>
  The \<^verbatim>\<open>while t1<=t_end\<close> loop.  Its state is \<open>t1\<close>, \<open>t2\<close> and the list built so
  far; \<open>t_end\<close>, \<open>d1\<close> and \<open>dt\<close> are fixed.  The result is \<open>None\<close> when the loop
  does not end.
\<close>

partial_function (option) breakDownDates_loop ::
  "datetime \<Rightarrow> timedelta \<Rightarrow> timedelta \<Rightarrow> datetime \<Rightarrow> datetime \<Rightarrow> (string \<times> string) list
     \<Rightarrow> (error + (string \<times> string) list) option" where
  "breakDownDates_loop t_end d1 dt t1 t2 date_list =
     (if t1 \<le> t_end then
        (let t2 = (if t2 > t_end then t_end else t2);
             t1_str = strftime t1;
             t2_str = strftime t2;
             date_list = date_list @ [(t1_str, t2_str)]
         in case datetime_add t2 d1 of
              Inl e \<Rightarrow> Some (Inl e)
            | Inr t1' \<Rightarrow>
                (case datetime_add t1' dt of
                   Inl e \<Rightarrow> Some (Inl e)
                 | Inr t2' \<Rightarrow> breakDownDates_loop t_end d1 dt t1' t2' date_list))
      else Some (Inr date_list))"

declare breakDownDates_loop.simps [code]

definition breakDownDates ::
  "string \<Rightarrow> string \<Rightarrow> int \<Rightarrow> (error + (string \<times> string) list) option" where
  "breakDownDates start_date end_date days_per_job =
     (if days_per_job < 1 then Some (Inl (Exception ''<days_per_job> should be >=1.''))
      else
        case strptime start_date of
          Inl e \<Rightarrow> Some (Inl e)
        | Inr t_start \<Rightarrow>
        case strptime end_date of
          Inl e \<Rightarrow> Some (Inl e)
        | Inr t_end \<Rightarrow>
        if t_start > t_end then Some (Inl (Exception ''<start_date> is later than <end_date>.''))
        else
        case timedelta_days 1 of
          Inl e \<Rightarrow> Some (Inl e)
        | Inr d1 \<Rightarrow>
        case timedelta_days (days_per_job - 1) of
          Inl e \<Rightarrow> Some (Inl e)
        | Inr dt \<Rightarrow>
        case datetime_add t_start dt of
          Inl e \<Rightarrow> Some (Inl e)
        | Inr t2 \<Rightarrow> breakDownDates_loop t_end d1 dt t_start t2 [])"

text \<open>
  A chain of day intervals from \<open>t\<close> to \<open>e\<close>: each starts where the one before
  ended plus one day, is not empty and spans fewer than \<open>k\<close> days beyond its start.
  Used to state the loop invariant.
\<close>

fun chunks_ok :: "int \<Rightarrow> int \<Rightarrow> int \<Rightarrow> (int \<times> int) list \<Rightarrow> bool" where
  "chunks_ok k t e [] = (t = e + 1)"
| "chunks_ok k t e ((a, b) # r) = (a = t \<and> a \<le> b \<and> b \<le> e \<and> b - a < k \<and> chunks_ok k (b + 1) e r)"

section \<open>Rewriting the dates of a CONTROL file: \<^verbatim>\<open>replaceControlDates\<close>\<close>

text \<open>
  The two patterns are \<^verbatim>\<open>^START_DATE +(\d{8})\<close> and \<^verbatim>\<open>^END_DATE +(\d{8})\<close>, compiled with
  \<^verbatim>\<open>re.MULTILINE\<close>.  \<open>match_assign name s\<close> matches \<^verbatim>\<open>name +(\d{8})\<close> at the start of
  \<open>s\<close> and gives the group and the text after the match: the name, at least one
  space (the greedy \<^verbatim>\<open> +\<close> takes all of them, and giving one back cannot help, a space
  being no digit), then eight digits.  Texts are ASCII.
\<close>

definition newline :: char where
  "newline = CHR 0x0A"

fun strip_prefix :: "string \<Rightarrow> string \<Rightarrow> string option" where
  "strip_prefix [] s = Some s"
| "strip_prefix (p # ps) [] = None"
| "strip_prefix (p # ps) (c # cs) = (if p = c then strip_prefix ps cs else None)"

definition match_assign :: "string \<Rightarrow> string \<Rightarrow> (string \<times> string) option" where
  "match_assign name s =
     (case strip_prefix name s of
        None \<Rightarrow> None
      | Some r \<Rightarrow>
          (let d = dropWhile (\<lambda>c. c = CHR '' '') r
           in if length d < length r \<and> 8 \<le> length d \<and> list_all is_digit (take 8 d)
              then Some (take 8 d, drop 8 d)
              else None))"

lemma match_assign_shorter:
  "match_assign name s = Some (g, rest) \<Longrightarrow> length rest < length s"
proof -
  have sp: "strip_prefix p t = Some r \<Longrightarrow> length r \<le> length t" for p t r
    by (induction p t rule: strip_prefix.induct) (auto split: if_splits)
  assume "match_assign name s = Some (g, rest)"
  then obtain r where r: "strip_prefix name s = Some r"
    and rest: "rest = drop 8 (dropWhile (\<lambda>c. c = CHR '' '') r)"
    and len: "8 \<le> length (dropWhile (\<lambda>c. c = CHR '' '') r)"
    by (auto simp: match_assign_def Let_def split: option.splits if_splits)
  have "length (dropWhile (\<lambda>c. c = CHR '' '') r) \<le> length r"
    by (rule length_dropWhile_le)
  with sp[OF r] rest len show ?thesis by simp
qed

lemma match_assign_shorter_Cons [termination_simp]:
  "match_assign name (c # cs) = Some (g, rest) \<Longrightarrow> length rest < Suc (length cs)"
  using match_assign_shorter[of name "c # cs" g rest] by simp

text \<open>
  \<^verbatim>\<open>pattern.search(s)\<close>: the first match, tried at the start of the text and after
  every newline; the result is \<^verbatim>\<open>group(1)\<close> of the match, \<open>None\<close> when there is
  none.  The flag says whether the position is at the start of a line.
\<close>

fun re_search :: "string \<Rightarrow> bool \<Rightarrow> string \<Rightarrow> string option" where
  "re_search name bol [] = None"
| "re_search name bol (c # cs) =
     (if bol then
        (case match_assign name (c # cs) of
           Some (g, rest) \<Rightarrow> Some g
         | None \<Rightarrow> re_search name (c = newline) cs)
      else re_search name (c = newline) cs)"

text \<open>
  \<^verbatim>\<open>pattern.sub(repl, s)\<close>: every match, left to right, is replaced by \<open>repl\<close>; the
  scan goes on after the match.  The replacement is taken as it is, which is what the
  library does with a template that holds no backslash.  In a template with a backslash
  the library expands escapes and group references, or raises; that is outside this
  model.  The templates built by \<^verbatim>\<open>replaceControlDates\<close> hold a backslash only when
  the date string does.
\<close>

fun re_sub :: "string \<Rightarrow> string \<Rightarrow> bool \<Rightarrow> string \<Rightarrow> string" where
  "re_sub name repl bol [] = []"
| "re_sub name repl bol (c # cs) =
     (if bol then
        (case match_assign name (c # cs) of
           Some (g, rest) \<Rightarrow> repl @ re_sub name repl False rest
         | None \<Rightarrow> c # re_sub name repl (c = newline) cs)
      else c # re_sub name repl (c = newline) cs)"

text \<open>
  The function returns the new text; the lines it prints are returned with it.  A failed
  search makes \<^verbatim>\<open>.group(1)\<close> raise, which the bare \<^verbatim>\<open>except\<close> catches.
\<close>

definition replaceControlDates :: "string \<Rightarrow> string \<Rightarrow> string \<Rightarrow> string list \<times> string" where
  "replaceControlDates ctrl_str start_date end_date =
     (let (out1, ctrl_str) =
            (case re_search ''END_DATE'' True ctrl_str of
               None \<Rightarrow> ([''END_DATE line not in CONTROL file. Add line.''],
                         ''END_DATE '' @ end_date @ [newline] @ ctrl_str)
             | Some g \<Rightarrow> ([], re_sub ''END_DATE'' (''END_DATE '' @ end_date) True ctrl_str));
          (out2, ctrl_str) =
            (case re_search ''START_DATE'' True ctrl_str of
               None \<Rightarrow> ([''START_DATE line not in CONTROL file. Add line.''],
                         ''START_DATE '' @ start_date @ [newline] @ ctrl_str)
             | Some g \<Rightarrow> ([], re_sub ''START_DATE'' (''START_DATE '' @ start_date) True ctrl_str))
      in (out1 @ out2, ctrl_str))"

text \<open>
  To speak about the lines of a text: \<^verbatim>\<open>s.split('\n')\<close>, the rewriting of one line, and
  a date string of eight digits.
\<close>

fun split_lines :: "string \<Rightarrow> string list" where
  "split_lines [] = [[]]"
| "split_lines (c # cs) =
     (if c = newline then [] # split_lines cs
      else (case split_lines cs of l # ls \<Rightarrow> (c # l) # ls | [] \<Rightarrow> [[c]]))"

definition assigns :: "string \<Rightarrow> string \<Rightarrow> bool" where
  "assigns name line = (match_assign name line \<noteq> None)"

definition rewrite_line :: "string \<Rightarrow> string \<Rightarrow> string \<Rightarrow> string" where
  "rewrite_line name v line =
     (case match_assign name line of
        None \<Rightarrow> line
      | Some (g, rest) \<Rightarrow> name @ '' '' @ v @ rest)"

text \<open>One line after \<^verbatim>\<open>sub\<close>: its match, if it has one, replaced.\<close>

definition replace_match :: "string \<Rightarrow> string \<Rightarrow> string \<Rightarrow> string" where
  "replace_match name repl l =
     (case match_assign name l of None \<Rightarrow> l | Some (g, rest) \<Rightarrow> repl @ rest)"

definition is_date8 :: "string \<Rightarrow> bool" where
  "is_date8 s = (length s = 8 \<and> list_all is_digit s)"

text \<open>\<^verbatim>\<open>'\n'.join(lines)\<close>, the inverse of \<open>split_lines\<close>.\<close>

fun join_lines :: "string list \<Rightarrow> string" where
  "join_lines [] = []"
| "join_lines [l] = l"
| "join_lines (l # l' # ls) = l @ newline # join_lines (l' # ls)"

section \<open>Paths, files and external processes\<close>

text \<open>
  \<^verbatim>\<open>os.path.join(a, b)\<close> and \<^verbatim>\<open>os.path.split(p)\<close> of \<^verbatim>\<open>posixpath\<close>.
\<close>

definition path_join :: "string \<Rightarrow> string \<Rightarrow> string" where
  "path_join a b =
     (if b \<noteq> [] \<and> hd b = CHR ''/'' then b
      else if a = [] \<or> last a = CHR ''/'' then a @ b
      else a @ ''/'' @ b)"

definition rstrip_sep :: "string \<Rightarrow> string" where
  "rstrip_sep s = rev (dropWhile (\<lambda>c. c = CHR ''/'') (rev s))"

definition path_split :: "string \<Rightarrow> string \<times> string" where
  "path_split p =
     (let tail = rev (takeWhile (\<lambda>c. c \<noteq> CHR ''/'') (rev p));
          head = take (length p - length tail) p;
          head = (if head \<noteq> [] \<and> head \<noteq> replicate (length head) CHR ''/''
                  then rstrip_sep head else head)
      in (head, tail))"

text \<open>
  \<^verbatim>\<open>os.path.normpath\<close> and \<^verbatim>\<open>os.path.abspath\<close>; \<open>str_split\<close> is
  \<^verbatim>\<open>s.split(sep)\<close> and \<open>str_join\<close> is \<^verbatim>\<open>sep.join(parts)\<close>.
\<close>

fun str_split :: "char \<Rightarrow> string \<Rightarrow> string list" where
  "str_split sep [] = [[]]"
| "str_split sep (c # cs) =
     (if c = sep then [] # str_split sep cs
      else (case str_split sep cs of l # ls \<Rightarrow> (c # l) # ls | [] \<Rightarrow> [[c]]))"

fun str_join :: "string \<Rightarrow> string list \<Rightarrow> string" where
  "str_join sep [] = []"
| "str_join sep [l] = l"
| "str_join sep (l # l' # ls) = l @ sep @ str_join sep (l' # ls)"

definition normpath_step :: "nat \<Rightarrow> string list \<Rightarrow> string \<Rightarrow> string list" where
  "normpath_step initial_slashes new_comps part =
     (if part = [] \<or> part = ''.'' then new_comps
      else if part \<noteq> ''..'' \<or> (initial_slashes = 0 \<and> new_comps = [])
              \<or> (new_comps \<noteq> [] \<and> last new_comps = ''..'')
           then new_comps @ [part]
      else if new_comps \<noteq> [] then butlast new_comps
      else new_comps)"

definition normpath :: "string \<Rightarrow> string" where
  "normpath path =
     (if path = [] then ''.''
      else
        let initial_slashes =
              (if hd path = CHR ''/''
               then (if take 2 path = ''//'' \<and> take 3 path \<noteq> ''///'' then 2 else 1)
               else (0 :: nat));
            comps = foldl (normpath_step initial_slashes) [] (str_split CHR ''/'' path);
            path = str_join ''/'' comps;
            path = replicate initial_slashes CHR ''/'' @ path
        in if path = [] then ''.'' else path)"

text \<open>
  The world outside the program.  \<open>fs\<close> maps every existing path to what is there;
  \<open>unwritable\<close> holds the paths that cannot be opened for writing (no directory for
  them, no permission); \<open>cwd\<close> is the working directory.  The other fields record what
  the program did: the lines it printed, the argument list of every process it started,
  the number of processes it killed, and every file content it wrote.
\<close>

datatype node = Dir | File string

record world =
  fs :: "string \<rightharpoonup> node"
  unwritable :: "string set"
  cwd :: string
  stdout :: "string list"
  launched :: "string list list"
  kills :: nat
  written :: "(string \<times> string) list"

definition abspath :: "world \<Rightarrow> string \<Rightarrow> string" where
  "abspath w path =
     normpath (if path \<noteq> [] \<and> hd path = CHR ''/'' then path else path_join (cwd w) path)"

definition path_exists :: "world \<Rightarrow> string \<Rightarrow> bool" where
  "path_exists w p = (fs w p \<noteq> None)"

definition print :: "string \<Rightarrow> world \<Rightarrow> world" where
  "print s w = w\<lparr>stdout := stdout w @ [s]\<rparr>"

text \<open>\<^verbatim>\<open>open(p, 'r').read()\<close>.\<close>

definition read_file :: "world \<Rightarrow> string \<Rightarrow> error + string" where
  "read_file w p = (case fs w p of Some (File c) \<Rightarrow> Inr c | _ \<Rightarrow> Inl OSError)"

text \<open>\<^verbatim>\<open>open(p, 'w')\<close> creates or empties the file; \<^verbatim>\<open>f.write(s)\<close> fills it.\<close>

definition can_write :: "world \<Rightarrow> string \<Rightarrow> bool" where
  "can_write w p = (p \<notin> unwritable w \<and> fs w p \<noteq> Some Dir)"

definition open_w :: "string \<Rightarrow> world \<Rightarrow> error + world" where
  "open_w p w = (if can_write w p then Inr (w\<lparr>fs := (fs w)(p \<mapsto> File [])\<rparr>) else Inl OSError)"

definition write_file :: "string \<Rightarrow> string \<Rightarrow> world \<Rightarrow> world" where
  "write_file p s w = w\<lparr>fs := (fs w)(p \<mapsto> File s), written := written w @ [(p, s)]\<rparr>"

text \<open>
  One run of the external process, as the program sees it: \<^verbatim>\<open>subprocess.Popen\<close> raises,
  or the process starts, changes the file system while it runs, and
  \<^verbatim>\<open>proc.wait(timeout)\<close> returns its exit code, finds it still running when the
  timeout is over (with no timeout: never returns), or raises something else.
\<close>

datatype waited = Exits int | StillRunning | WaitRaises

datatype attempt = LaunchFails | Started "(string \<rightharpoonup> node) \<Rightarrow> (string \<rightharpoonup> node)" waited

text \<open>\<^verbatim>\<open>xs.index(x)\<close> and the element after it, \<^verbatim>\<open>xs[xs.index(x)+1]\<close>.\<close>

fun list_index :: "'a list \<Rightarrow> 'a \<Rightarrow> nat option" where
  "list_index [] x = None"
| "list_index (y # ys) x = (if y = x then Some 0 else map_option Suc (list_index ys x))"

definition arg_after :: "string list \<Rightarrow> string \<Rightarrow> error + string" where
  "arg_after xs x =
     (case list_index xs x of
        None \<Rightarrow> Inl ValueError
      | Some i \<Rightarrow> (if Suc i < length xs then Inr (xs ! Suc i) else Inl IndexError))"


section \<open>The runner: \<^verbatim>\<open>launchJob\<close>\<close>

text \<open>
  The \<^verbatim>\<open>while tried<=retry\<close> loop, inside the \<^verbatim>\<open>with open(logfilename, 'w')\<close> block.
  \<open>proc\<close> gives the run of the process at each try.  The result is the exception or
  the return value, with the world as it is then; \<open>None\<close> when \<^verbatim>\<open>wait\<close> never
  returns.  \<^verbatim>\<open>Popen\<close> stands before the \<^verbatim>\<open>try\<close>, and the marker is written in its
  \<^verbatim>\<open>else\<close> branch: what they raise is not caught.  The progress messages that
  \<^verbatim>\<open>launchJob\<close> prints are left out.
\<close>

function launchJob_loop ::
  "(nat \<Rightarrow> attempt) \<Rightarrow> string list \<Rightarrow> int option \<Rightarrow> int \<Rightarrow> nat \<Rightarrow> int \<Rightarrow> world
     \<Rightarrow> ((error + int) \<times> world) option" where
  "launchJob_loop proc args timeout retry tried ret w =
     (if int tried \<le> retry then
        (case proc tried of
           LaunchFails \<Rightarrow> Some (Inl OSError, w)
         | Started effect outcome \<Rightarrow>
             (let w = w\<lparr>launched := launched w @ [args], fs := effect (fs w)\<rparr>
              in case outcome of
                   StillRunning \<Rightarrow>
                     (case timeout of
                        None \<Rightarrow> None
                      | Some t \<Rightarrow>
                          launchJob_loop proc args timeout retry (tried + 1) ret
                            (w\<lparr>kills := kills w + 1\<rparr>))
                 | WaitRaises \<Rightarrow> Some (Inr ret, w)
                 | Exits ret \<Rightarrow>
                     (if ret = 0 then
                        (case arg_after args ''--outputdir'' of
                           Inl e \<Rightarrow> Some (Inl e, w)
                         | Inr outputdir \<Rightarrow>
                             (if path_exists w outputdir then
                                (case open_w (path_join outputdir ''job_done'') w of
                                   Inl e \<Rightarrow> Some (Inl e, w)
                                 | Inr w \<Rightarrow>
                                     Some (Inr ret,
                                           write_file (path_join outputdir ''job_done'')
                                             ''job done.'' w))
                              else Some (Inr ret, w)))
                      else Some (Inr ret, w))))
      else Some (Inr ret, w))"
  by pat_completeness auto
termination
  by (relation "measure (\<lambda>(proc, args, timeout, retry, tried, ret, w). nat (retry + 1 - int tried))")
     auto

declare launchJob_loop.simps [simp del]

definition launchJob ::
  "(nat \<Rightarrow> attempt) \<Rightarrow> string list \<Rightarrow> string \<times> string \<times> string \<Rightarrow> string \<Rightarrow> int option \<Rightarrow> int
     \<Rightarrow> world \<Rightarrow> ((error + int) \<times> world) option" where
  "launchJob proc args job_dates logfilename timeout retry w =
     (case open_w logfilename w of
        Inl e \<Rightarrow> Some (Inl e, w)
      | Inr w \<Rightarrow> launchJob_loop proc args timeout retry 0 1 w)"

text \<open>
  Scenarios for the runner: a world in which the output directory of a job exists, the
  argument list of that job, and runs of the process that always time out, exit with a
  given code, cannot be started, or make \<^verbatim>\<open>wait\<close> raise.
\<close>

definition scenario_world :: world where
  "scenario_world =
     \<lparr>fs = [''/data/j_0_out'' \<mapsto> Dir], unwritable = {}, cwd = ''/home/user'',
      stdout = [], launched = [], kills = 0, written = []\<rparr>"

definition scenario_args :: "string list" where
  "scenario_args =
     [''python'', ''-u'', ''/fe/submit.py'', ''--controlfile'', ''/fe/CONTROL_j_0'',
      ''--inputdir'', ''/data/j_0_tmp'', ''--outputdir'', ''/data/j_0_out'']"

definition always_times_out :: "nat \<Rightarrow> attempt" where
  "always_times_out i = Started id StillRunning"

definition exits_with :: "int \<Rightarrow> nat \<Rightarrow> attempt" where
  "exits_with code i = Started id (Exits code)"

definition never_starts :: "nat \<Rightarrow> attempt" where
  "never_starts i = LaunchFails"

definition wait_raises :: "nat \<Rightarrow> attempt" where
  "wait_raises i = Started id WaitRaises"


text \<open>The same world with the output directory read-only: the marker cannot be created.\<close>

definition readonly_world :: world where
  "readonly_world = scenario_world\<lparr>unwritable := {''/data/j_0_out/job_done''}\<rparr>"

section \<open>Building the job list: \<^verbatim>\<open>isSkip\<close> and \<^verbatim>\<open>prepareJobList\<close>\<close>

definition isSkip :: "world \<Rightarrow> string \<Rightarrow> bool" where
  "isSkip w outputdir = (let rec_file = path_join outputdir ''job_done'' in path_exists w rec_file)"

text \<open>
  The dictionary that describes one job, with its keys \<^verbatim>\<open>args\<close>, \<^verbatim>\<open>job_dates\<close>,
  \<^verbatim>\<open>timeout\<close>, \<^verbatim>\<open>logfile\<close> and \<^verbatim>\<open>retry\<close>.
\<close>

record job =
  args_of :: "string list"
  job_dates_of :: "string \<times> string \<times> string"
  timeout_of :: "int option"
  logfile_of :: string
  retry_of :: int

text \<open>
  The job id of position \<open>i\<close> among \<open>n\<close> intervals,
  \<^verbatim>\<open>str(idii).rjust(len(str(len(date_list))), '0')\<close>, and the folder name
  \<^verbatim>\<open>os.path.join(outputdir, '%s_%s_%s-%s' %(job_prefix, idii, t1ii, t2ii))\<close>.
\<close>

definition job_id :: "nat \<Rightarrow> nat \<Rightarrow> string" where
  "job_id n i = rjust (length (str_nat n)) CHR ''0'' (str_nat i)"

definition job_outputdir :: "string \<Rightarrow> string \<Rightarrow> string \<Rightarrow> string \<Rightarrow> string \<Rightarrow> string" where
  "job_outputdir outputdir job_prefix idii t1ii t2ii =
     path_join outputdir (job_prefix @ ''_'' @ idii @ ''_'' @ t1ii @ ''-'' @ t2ii)"

text \<open>
  The path of the copy of the CONTROL file for a job,
  \<^verbatim>\<open>os.path.join(ctrl_folder, '%s_%s_%s' %(ctrl_fname, job_prefix, idii))\<close>.
\<close>

definition control_copy_path :: "string \<Rightarrow> string \<Rightarrow> string \<Rightarrow> string \<Rightarrow> string" where
  "control_copy_path ctrl_folder ctrl_fname job_prefix idii =
     path_join ctrl_folder (ctrl_fname @ ''_'' @ job_prefix @ ''_'' @ idii)"

text \<open>
  The \<^verbatim>\<open>if copy_control\<close> statement of the loop body: the path of the CONTROL file of the
  job, after writing the file when a copy is asked for.
\<close>

definition control_file_for ::
  "bool \<Rightarrow> string \<Rightarrow> string \<Rightarrow> string \<Rightarrow> string \<Rightarrow> string \<Rightarrow> string \<Rightarrow> string \<Rightarrow> string
     \<Rightarrow> world \<Rightarrow> (error + string) \<times> world" where
  "control_file_for copy_control ctrl_file ctrl_folder ctrl_fname ctrl_str job_prefix idii
       t1ii t2ii w =
     (if copy_control then
        (let ctrl_fileii = control_copy_path ctrl_folder ctrl_fname job_prefix idii;
             (out, ctrl_strii) = replaceControlDates ctrl_str t1ii t2ii;
             w = foldl (\<lambda>w s. print s w) w out
         in case open_w ctrl_fileii w of
              Inl e \<Rightarrow> (Inl e, w)
            | Inr w \<Rightarrow> (Inr ctrl_fileii, write_file ctrl_fileii ctrl_strii w))
      else (Inr ctrl_file, w))"

text \<open>
  The argument list \<^verbatim>\<open>jobii\<close> and the dictionary appended to \<^verbatim>\<open>job_list\<close> for the
  interval at position \<open>i\<close>, given the path of its CONTROL file.
\<close>

definition job_spec ::
  "string \<Rightarrow> string \<Rightarrow> int option \<Rightarrow> int \<Rightarrow> string \<Rightarrow> nat \<Rightarrow> nat \<Rightarrow> string \<times> string \<Rightarrow> string
     \<Rightarrow> job" where
  "job_spec exe_file outputdir time_out time_out_retry job_prefix n i dateii ctrl_fileii =
     (case dateii of
        (t1ii, t2ii) \<Rightarrow>
          (let idii = job_id n i;
               outputdirii = job_outputdir outputdir job_prefix idii t1ii t2ii;
               outputdir_tmpii = outputdirii @ ''_tmp'';
               outputdir_outii = outputdirii @ ''_out'';
               jobii = [''python'', ''-u'', exe_file, ''--controlfile'', ctrl_fileii,
                        ''--inputdir'', outputdir_tmpii,
                        ''--outputdir'', outputdir_outii]
           in \<lparr>args_of = jobii,
               job_dates_of = (idii, t1ii, t2ii),
               timeout_of = time_out,
               logfile_of = job_prefix @ ''_'' @ idii @ ''.txt'',
               retry_of = time_out_retry\<rparr>))"

text \<open>
  The \<^verbatim>\<open>for idii, dateii in enumerate(date_list)\<close> loop: \<open>n\<close> is
  \<^verbatim>\<open>len(date_list)\<close>, \<open>i\<close> the position of the next interval.
\<close>

fun prepareJobList_loop ::
  "string \<Rightarrow> string \<Rightarrow> string \<Rightarrow> string \<Rightarrow> string \<Rightarrow> string \<Rightarrow> int option \<Rightarrow> int \<Rightarrow> string
     \<Rightarrow> bool \<Rightarrow> nat \<Rightarrow> nat \<Rightarrow> (string \<times> string) list \<Rightarrow> job list \<Rightarrow> world
     \<Rightarrow> (error + job list) \<times> world" where
  "prepareJobList_loop exe_file ctrl_file ctrl_folder ctrl_fname ctrl_str outputdir time_out
       time_out_retry job_prefix copy_control n i [] job_list w = (Inr job_list, w)"
| "prepareJobList_loop exe_file ctrl_file ctrl_folder ctrl_fname ctrl_str outputdir time_out
       time_out_retry job_prefix copy_control n i ((t1ii, t2ii) # rest) job_list w =
     (let idii = job_id n i;
          outputdirii = job_outputdir outputdir job_prefix idii t1ii t2ii;
          outputdir_outii = outputdirii @ ''_out''
      in if isSkip w outputdir_outii then
           prepareJobList_loop exe_file ctrl_file ctrl_folder ctrl_fname ctrl_str outputdir
             time_out time_out_retry job_prefix copy_control n (Suc i) rest job_list
             (print (''# <prepareJobList>: Skip job #'' @ idii @ '': '' @ t1ii @ ''-'' @ t2ii) w)
         else
           (case control_file_for copy_control ctrl_file ctrl_folder ctrl_fname ctrl_str
                   job_prefix idii t1ii t2ii
                   (print (''# <prepareJobList>: Add job #'' @ idii @ '': '' @ t1ii @ ''-'' @ t2ii) w) of
              (Inl e, w) \<Rightarrow> (Inl e, w)
            | (Inr ctrl_fileii, w) \<Rightarrow>
                prepareJobList_loop exe_file ctrl_file ctrl_folder ctrl_fname ctrl_str
                  outputdir time_out time_out_retry job_prefix copy_control n (Suc i) rest
                  (job_list @ [job_spec exe_file outputdir time_out time_out_retry job_prefix
                                 n i (t1ii, t2ii) ctrl_fileii])
                  w))"

definition prepareJobList ::
  "string \<Rightarrow> string \<Rightarrow> (string \<times> string) list \<Rightarrow> string \<Rightarrow> int option \<Rightarrow> int \<Rightarrow> string \<Rightarrow> bool
     \<Rightarrow> bool \<Rightarrow> world \<Rightarrow> (error + job list) \<times> world" where
  "prepareJobList exe_file ctrl_file date_list outputdir time_out time_out_retry job_prefix
       copy_control verbose w =
     (let (ctrl_folder, ctrl_fname) = path_split ctrl_file
      in case read_file w ctrl_file of
           Inl e \<Rightarrow> (Inl e, w)
         | Inr ctrl_str \<Rightarrow>
             (let w = (if verbose
                       then print ctrl_str
                              (print ''\<newline># <prepareJobList>: Default CONTROL file:'' w)
                       else w)
              in prepareJobList_loop exe_file ctrl_file ctrl_folder ctrl_fname ctrl_str
                   outputdir time_out time_out_retry job_prefix copy_control
                   (length date_list) 0 date_list [] w))"


section \<open>The summary and the entry point: \<^verbatim>\<open>printJobSummary\<close> and \<^verbatim>\<open>main\<close>\<close>

text \<open>\<^verbatim>\<open>str\<close> of an integer and of \<^verbatim>\<open>None\<close>, as \<^verbatim>\<open>print\<close> and \<^verbatim>\<open>%d\<close> render them.\<close>

definition str_int :: "int \<Rightarrow> string" where
  "str_int i = (if i < 0 then ''-'' @ str_nat (nat (- i)) else str_nat (nat i))"

definition str_timeout :: "int option \<Rightarrow> string" where
  "str_timeout t = (case t of None \<Rightarrow> ''None'' | Some s \<Rightarrow> str_int s)"

definition checkControlFile :: "world \<Rightarrow> string \<Rightarrow> string \<Rightarrow> error + string \<times> string" where
  "checkControlFile w flex_extract_folder control_file =
     (let ctrl_folder = path_join flex_extract_folder ''Run/Control'';
          ctrl_file = path_join ctrl_folder control_file
      in if \<not> path_exists w ctrl_file
         then Inl (Exception (''CONTROL file '' @ ctrl_file @ '' not found.''))
         else Inr (ctrl_folder, ctrl_file))"

definition checkExeFile :: "world \<Rightarrow> string \<Rightarrow> error + string" where
  "checkExeFile w flex_extract_folder =
     (let exe_file = path_join flex_extract_folder ''Source/Python/submit.py'';
          exe_file = abspath w exe_file
      in if \<not> path_exists w exe_file
         then Inl (Exception (''submit.py file '' @ exe_file @ '' not found at here:''))
         else Inr exe_file)"

text \<open>The \<^verbatim>\<open>for jobii in job_list\<close> loop of the summary.\<close>

fun printJobSummary_loop :: "job list \<Rightarrow> world \<Rightarrow> (error + unit) \<times> world" where
  "printJobSummary_loop [] w = (Inr (), w)"
| "printJobSummary_loop (jobii # rest) w =
     (case job_dates_of jobii of
        (idii, t1ii, t2ii) \<Rightarrow>
          (let logii = logfile_of jobii;
               retryii = retry_of jobii;
               timeoutii = timeout_of jobii;
               argsii = args_of jobii
           in case arg_after argsii ''--controlfile'' of
                Inl e \<Rightarrow> (Inl e, w)
              | Inr ctrlii \<Rightarrow>
              case arg_after argsii ''--inputdir'' of
                Inl e \<Rightarrow> (Inl e, w)
              | Inr inputii \<Rightarrow>
              case arg_after argsii ''--outputdir'' of
                Inl e \<Rightarrow> (Inl e, w)
              | Inr outii \<Rightarrow>
                  printJobSummary_loop rest
                    (print (''Time-out retries: '' @ str_int retryii)
                    (print (''Time-out (seconds): '' @ str_timeout timeoutii)
                    (print (''outputdir: '' @ outii)
                    (print (''inputdir: '' @ inputii)
                    (print (''Log file: '' @ logii)
                    (print (''CONTROL file: '' @ ctrlii)
                    (print (''Time period: '' @ t1ii @ '' - '' @ t2ii)
                    (print (''\<newline>#### Summary of job #'' @ idii @ '':'') w))))))))))"

definition printJobSummary ::
  "string \<Rightarrow> string \<Rightarrow> int \<Rightarrow> job list \<Rightarrow> int \<Rightarrow> world \<Rightarrow> (error + unit) \<times> world" where
  "printJobSummary start_date end_date days_per_job job_list n_workers w =
     (let w = print ''\<newline># <downloader>: ####### Job summary #######'' w;
          w = print (''Time period: '' @ start_date @ '' - '' @ end_date) w
      in case strptime start_date of
           Inl e \<Rightarrow> (Inl e, w)
         | Inr t_start \<Rightarrow>
         case strptime end_date of
           Inl e \<Rightarrow> (Inl e, w)
         | Inr t_end \<Rightarrow>
             (let n_days = t_end - t_start;
                  w = print (''Total number of days = '' @ str_int n_days) w;
                  w = print (''Number of days for each job = '' @ str_int days_per_job) w;
                  w = print (''Number of jobs = '' @ str_nat (length job_list)) w;
                  w = print (''Maximum number of parallel jobs = '' @ str_int n_workers) w;
                  w = print ''\<newline>######### Loop through jobs ##############'' w
              in printJobSummary_loop job_list w))"

text \<open>
  \<^verbatim>\<open>launchJobUnpack\<close>, and \<^verbatim>\<open>pool.map(launchJobUnpack, job_list)\<close>.  \<open>proc\<close> gives
  the runs of the process started with an argument list.  \<^verbatim>\<open>Pool(n)\<close> raises
  \<^verbatim>\<open>ValueError\<close> for \<open>n < 1\<close>.  \<^verbatim>\<open>map\<close> cuts the list into chunks of
  \<^verbatim>\<open>len(job_list)\<close> divided by \<^verbatim>\<open>4 * n\<close>, rounded up; a worker runs a chunk job by job,
  and a job that raises ends its chunk: the jobs after it in the chunk are not run.  The
  other chunks are still run, and \<^verbatim>\<open>map\<close> raises when all are over.  The workers are
  modelled as running the chunks one after the other in the order of the list, and the
  exception that \<^verbatim>\<open>map\<close> raises is that of the first chunk in this order that failed (in
  the library: of the chunk that failed first in time).
\<close>

definition launchJobUnpack ::
  "(string list \<Rightarrow> nat \<Rightarrow> attempt) \<Rightarrow> job \<Rightarrow> world \<Rightarrow> ((error + int) \<times> world) option" where
  "launchJobUnpack proc arg_dict w =
     launchJob (proc (args_of arg_dict)) (args_of arg_dict) (job_dates_of arg_dict)
       (logfile_of arg_dict) (timeout_of arg_dict) (retry_of arg_dict) w"

definition chunksize :: "nat \<Rightarrow> int \<Rightarrow> nat" where
  "chunksize len n_workers =
     (let chunksize = len div (nat n_workers * 4);
          extra = len mod (nat n_workers * 4);
          chunksize = (if extra \<noteq> 0 then chunksize + 1 else chunksize)
      in if len = 0 then 0 else chunksize)"

fun get_tasks :: "nat \<Rightarrow> 'a list \<Rightarrow> 'a list list" where
  "get_tasks n xs =
     (if n = 0 \<or> xs = [] then [] else take n xs # get_tasks n (drop n xs))"

declare get_tasks.simps [simp del]

text \<open>One chunk: \<^verbatim>\<open>list(map(launchJobUnpack, chunk))\<close>.\<close>

fun run_chunk ::
  "(string list \<Rightarrow> nat \<Rightarrow> attempt) \<Rightarrow> job list \<Rightarrow> world \<Rightarrow> ((error + int list) \<times> world) option" where
  "run_chunk proc [] w = Some (Inr [], w)"
| "run_chunk proc (j # js) w =
     (case launchJobUnpack proc j w of
        None \<Rightarrow> None
      | Some (Inl e, w) \<Rightarrow> Some (Inl e, w)
      | Some (Inr r, w) \<Rightarrow>
          (case run_chunk proc js w of
             None \<Rightarrow> None
           | Some (Inl e, w) \<Rightarrow> Some (Inl e, w)
           | Some (Inr rs, w) \<Rightarrow> Some (Inr (r # rs), w)))"

fun run_chunks ::
  "(string list \<Rightarrow> nat \<Rightarrow> attempt) \<Rightarrow> job list list \<Rightarrow> world
     \<Rightarrow> ((error + int list) list \<times> world) option" where
  "run_chunks proc [] w = Some ([], w)"
| "run_chunks proc (c # cs) w =
     (case run_chunk proc c w of
        None \<Rightarrow> None
      | Some (r, w) \<Rightarrow>
          (case run_chunks proc cs w of
             None \<Rightarrow> None
           | Some (rs, w) \<Rightarrow> Some (r # rs, w)))"

fun first_error :: "(error + int list) list \<Rightarrow> error option" where
  "first_error [] = None"
| "first_error (Inl e # rs) = Some e"
| "first_error (Inr v # rs) = first_error rs"

fun values_of :: "(error + int list) list \<Rightarrow> int list" where
  "values_of [] = []"
| "values_of (Inl e # rs) = values_of rs"
| "values_of (Inr v # rs) = v @ values_of rs"

definition pool_map ::
  "int \<Rightarrow> (string list \<Rightarrow> nat \<Rightarrow> attempt) \<Rightarrow> job list \<Rightarrow> world
     \<Rightarrow> ((error + int list) \<times> world) option" where
  "pool_map n_workers proc job_list w =
     (case run_chunks proc (get_tasks (chunksize (length job_list) n_workers) job_list) w of
        None \<Rightarrow> None
      | Some (rs, w) \<Rightarrow>
          (case first_error rs of
             Some e \<Rightarrow> Some (Inl e, w)
           | None \<Rightarrow> Some (Inr (values_of rs), w)))"

definition str_int_list :: "int list \<Rightarrow> string" where
  "str_int_list xs = ''['' @ str_join '', '' (map str_int xs) @ '']''"

text \<open>
  \<^verbatim>\<open>main\<close>.  Its first argument is the module's global \<^verbatim>\<open>DRY\<close>, which the body reads
  in \<^verbatim>\<open>if DRY:\<close>; the parameter \<^verbatim>\<open>dry\<close> is the last but one.
\<close>

definition main ::
  "bool \<Rightarrow> (string list \<Rightarrow> nat \<Rightarrow> attempt) \<Rightarrow> string \<Rightarrow> string \<Rightarrow> string \<Rightarrow> string \<Rightarrow> int \<Rightarrow> int
     \<Rightarrow> string \<Rightarrow> int option \<Rightarrow> int \<Rightarrow> string \<Rightarrow> bool \<Rightarrow> bool \<Rightarrow> world
     \<Rightarrow> ((error + unit) \<times> world) option" where
  "main DRY proc flex_extract_folder control_file start_date end_date days_per_job n_workers
       outputdir time_out time_out_retry job_prefix copy_control dry w =
     (case breakDownDates start_date end_date days_per_job of
        None \<Rightarrow> None
      | Some (Inl e) \<Rightarrow> Some (Inl e, w)
      | Some (Inr date_list) \<Rightarrow>
      case checkExeFile w flex_extract_folder of
        Inl e \<Rightarrow> Some (Inl e, w)
      | Inr exe_file \<Rightarrow>
      case checkControlFile w flex_extract_folder control_file of
        Inl e \<Rightarrow> Some (Inl e, w)
      | Inr (ctrl_folder, ctrl_file) \<Rightarrow>
      case prepareJobList exe_file ctrl_file date_list outputdir time_out time_out_retry
             job_prefix copy_control True w of
        (Inl e, w) \<Rightarrow> Some (Inl e, w)
      | (Inr job_list, w) \<Rightarrow>
          if DRY then
            Some (printJobSummary start_date end_date days_per_job job_list n_workers w)
          else if n_workers < 1 then Some (Inl ValueError, w)
          else
            (case pool_map n_workers proc job_list w of
               None \<Rightarrow> None
             | Some (Inl e, w) \<Rightarrow> Some (Inl e, w)
             | Some (Inr results, w) \<Rightarrow>
                 Some (Inr (),
                       print (''\<newline># <serial_batch_job>: Results: '' @ str_int_list results)
                         (foldl (\<lambda>w rii. print (str_int rii) w) w results))))"

text \<open>The number that a string of digits denotes (used to tell job ids apart).\<close>

definition digits_val :: "string \<Rightarrow> nat" where
  "digits_val s = foldl (\<lambda>a c. 10 * a + (of_char c - 48)) 0 s"

text \<open>
  Names for three expressions of the loop of \<^verbatim>\<open>prepareJobList\<close> at position \<open>k\<close>: the
  output folder \<^verbatim>\<open>outputdir_outii\<close>, the CONTROL file \<^verbatim>\<open>ctrl_fileii\<close>, and the line
  printed when the job is skipped.
\<close>

definition job_outdir :: "string \<Rightarrow> string \<Rightarrow> nat \<Rightarrow> nat \<Rightarrow> string \<times> string \<Rightarrow> string" where
  "job_outdir outputdir job_prefix n k dateii =
     job_outputdir outputdir job_prefix (job_id n k) (fst dateii) (snd dateii) @ ''_out''"

definition job_control :: "bool \<Rightarrow> string \<Rightarrow> string \<Rightarrow> string \<Rightarrow> string \<Rightarrow> nat \<Rightarrow> nat \<Rightarrow> string" where
  "job_control copy_control ctrl_file ctrl_folder ctrl_fname job_prefix n k =
     (if copy_control then control_copy_path ctrl_folder ctrl_fname job_prefix (job_id n k)
      else ctrl_file)"

definition skip_message :: "nat \<Rightarrow> nat \<Rightarrow> string \<times> string \<Rightarrow> string" where
  "skip_message n k dateii =
     ''# <prepareJobList>: Skip job #'' @ job_id n k @ '': '' @ fst dateii @ ''-'' @ snd dateii"


text \<open>
  Scenarios for the engine: the three intervals of 2013-02-03 to 2013-02-07 in chunks of
  two days, a world with the program, the CONTROL file and the marker of job 1 only, and
  a world in which all three jobs have their marker.
\<close>

definition engine_dates :: "(string \<times> string) list" where
  "engine_dates =
     [(''20130203'', ''20130204''), (''20130205'', ''20130206''), (''20130207'', ''20130207'')]"

definition engine_world :: world where
  "engine_world =
     \<lparr>fs = [''/fe/Source/Python/submit.py'' \<mapsto> File [],
            ''/fe/Run/Control/CONTROL_EI'' \<mapsto> File ''START_DATE 20130101\<newline>FOO 1\<newline>'',
            ''/data/EI_1_20130205-20130206_out/job_done'' \<mapsto> File ''job done.''],
      unwritable = {}, cwd = ''/home/user'',
      stdout = [], launched = [], kills = 0, written = []\<rparr>"

definition done_world :: world where
  "done_world =
     engine_world\<lparr>fs := (fs engine_world)
                     (''/data/EI_0_20130203-20130204_out/job_done'' \<mapsto> File ''job done.'',
                      ''/data/EI_2_20130207-20130207_out/job_done'' \<mapsto> File ''job done.'')\<rparr>"

text \<open>The world before any job has run: \<open>engine_world\<close> without the marker of job 1.\<close>

definition fresh_world :: world where
  "fresh_world =
     engine_world\<lparr>fs := (fs engine_world)(''/data/EI_1_20130205-20130206_out/job_done'' := None)\<rparr>"

text \<open>
  \<^verbatim>\<open>prepareJobList\<close> for these intervals with the prefix \<^verbatim>\<open>EI\<close>, a copy of the CONTROL
  file for each job, a time-out of 14400 seconds and 3 retries; and the three job
  dictionaries it can build.
\<close>

definition engine_prepare :: "world \<Rightarrow> (error + job list) \<times> world" where
  "engine_prepare w =
     prepareJobList ''/fe/Source/Python/submit.py'' ''/fe/Run/Control/CONTROL_EI'' engine_dates
       ''/data'' (Some 14400) 3 ''EI'' True False w"

definition engine_job0 :: job where
  "engine_job0 =
     \<lparr>args_of = [''python'', ''-u'', ''/fe/Source/Python/submit.py'',
                  ''--controlfile'', ''/fe/Run/Control/CONTROL_EI_EI_0'',
                  ''--inputdir'', ''/data/EI_0_20130203-20130204_tmp'',
                  ''--outputdir'', ''/data/EI_0_20130203-20130204_out''],
      job_dates_of = (''0'', ''20130203'', ''20130204''),
      timeout_of = Some 14400, logfile_of = ''EI_0.txt'', retry_of = 3\<rparr>"

definition engine_job1 :: job where
  "engine_job1 =
     \<lparr>args_of = [''python'', ''-u'', ''/fe/Source/Python/submit.py'',
                  ''--controlfile'', ''/fe/Run/Control/CONTROL_EI_EI_1'',
                  ''--inputdir'', ''/data/EI_1_20130205-20130206_tmp'',
                  ''--outputdir'', ''/data/EI_1_20130205-20130206_out''],
      job_dates_of = (''1'', ''20130205'', ''20130206''),
      timeout_of = Some 14400, logfile_of = ''EI_1.txt'', retry_of = 3\<rparr>"

definition engine_job2 :: job where
  "engine_job2 =
     \<lparr>args_of = [''python'', ''-u'', ''/fe/Source/Python/submit.py'',
                  ''--controlfile'', ''/fe/Run/Control/CONTROL_EI_EI_2'',
                  ''--inputdir'', ''/data/EI_2_20130207-20130207_tmp'',
                  ''--outputdir'', ''/data/EI_2_20130207-20130207_out''],
      job_dates_of = (''2'', ''20130207'', ''20130207''),
      timeout_of = Some 14400, logfile_of = ''EI_2.txt'', retry_of = 3\<rparr>"

text \<open>Every program started by the engine exits with code 0 at its first try.\<close>

definition engine_proc :: "string list \<Rightarrow> nat \<Rightarrow> attempt" where
  "engine_proc args = exits_with 0"

text \<open>
  Ten intervals of one day, so that the job ids have two characters; a world in which the
  job at position 3 is done, and the same world before any job has run.
\<close>

definition ten_dates :: "(string \<times> string) list" where
  "ten_dates =
     [(''20130201'', ''20130201''), (''20130202'', ''20130202''), (''20130203'', ''20130203''),
      (''20130204'', ''20130204''), (''20130205'', ''20130205''), (''20130206'', ''20130206''),
      (''20130207'', ''20130207''), (''20130208'', ''20130208''), (''20130209'', ''20130209''),
      (''20130210'', ''20130210'')]"

definition ten_fresh_world :: world where
  "ten_fresh_world =
     \<lparr>fs = [''/fe/Source/Python/submit.py'' \<mapsto> File [],
            ''/fe/Run/Control/CONTROL_EI'' \<mapsto> File ''START_DATE 20130101\<newline>FOO 1\<newline>''],
      unwritable = {}, cwd = ''/home/user'',
      stdout = [], launched = [], kills = 0, written = []\<rparr>"

definition ten_world :: world where
  "ten_world =
     ten_fresh_world\<lparr>fs := (fs ten_fresh_world)
                        (''/data/EI_03_20130204-20130204_out/job_done'' \<mapsto> File ''job done.'')\<rparr>"

section \<open>Properties of the partitioner\<close>

lemma chunks_ok_nth:
  "chunks_ok k t e ivs \<Longrightarrow> i < length ivs \<Longrightarrow>
     fst (ivs ! i) \<le> snd (ivs ! i) \<and> snd (ivs ! i) - fst (ivs ! i) + 1 \<le> k"
proof (induction ivs arbitrary: t i)
  case Nil then show ?case by simp
next
  case (Cons p r)
  obtain a b where p: "p = (a, b)" by (cases p)
  show ?case
  proof (cases i)
    case 0 with Cons.prems p show ?thesis by simp
  next
    case (Suc j)
    with Cons.prems p have "chunks_ok k (b + 1) e r" "j < length r" by simp_all
    from Cons.IH[OF this] Suc show ?thesis by simp
  qed
qed

lemma chunks_ok_hd: "chunks_ok k t e ivs \<Longrightarrow> ivs \<noteq> [] \<Longrightarrow> fst (hd ivs) = t"
  by (cases ivs) auto

lemma chunks_ok_adj:
  "chunks_ok k t e ivs \<Longrightarrow> Suc i < length ivs \<Longrightarrow> fst (ivs ! Suc i) = snd (ivs ! i) + 1"
proof (induction ivs arbitrary: t i)
  case Nil then show ?case by simp
next
  case (Cons p r)
  obtain a b where p: "p = (a, b)" by (cases p)
  from Cons.prems p have ok: "chunks_ok k (b + 1) e r" and ne: "r \<noteq> []" by auto
  show ?case
  proof (cases i)
    case 0
    with chunks_ok_hd[OF ok ne] p ne show ?thesis by (simp add: hd_conv_nth)
  next
    case (Suc j)
    with Cons.prems have "Suc j < length r" by simp
    from Cons.IH[OF ok this] Suc show ?thesis by simp
  qed
qed

lemma chunks_ok_last: "chunks_ok k t e ivs \<Longrightarrow> ivs \<noteq> [] \<Longrightarrow> snd (last ivs) = e"
proof (induction ivs arbitrary: t)
  case Nil then show ?case by simp
next
  case (Cons p r)
  obtain a b where p: "p = (a, b)" by (cases p)
  show ?case
  proof (cases r)
    case Nil with Cons.prems p show ?thesis by simp
  next
    case (Cons q r')
    with Cons.prems Cons.IH[of "b + 1"] p show ?thesis by simp
  qed
qed

lemma chunks_ok_cover: "chunks_ok k t e ivs \<Longrightarrow> (\<Union>(a, b)\<in>set ivs. {a..b}) = {t..e}"
proof (induction ivs arbitrary: t)
  case Nil then show ?case by simp
next
  case (Cons p r)
  obtain a b where p: "p = (a, b)" by (cases p)
  with Cons.prems have ok: "chunks_ok k (b + 1) e r" and ab: "a = t" "t \<le> b" "b \<le> e" by auto
  from Cons.IH[OF ok] have "(\<Union>(a, b)\<in>set r. {a..b}) = {b + 1..e}" .
  moreover have "{t..b} \<union> {b + 1..e} = {t..e}" using ab by auto
  ultimately show ?case using p ab by simp
qed

lemma loop_chunks:
  assumes "0 \<le> dt" "1 \<le> t1" "t1 \<le> t_end + 1" "t_end + dt + 1 \<le> MAXORDINAL" "t2 = t1 + dt"
  shows "\<exists>ivs. breakDownDates_loop t_end 1 dt t1 t2 acc
                 = Some (Inr (acc @ map (\<lambda>(a, b). (strftime a, strftime b)) ivs))
               \<and> chunks_ok (dt + 1) t1 t_end ivs"
  using assms
proof (induction "nat (t_end + 1 - t1)" arbitrary: t1 t2 acc rule: less_induct)
  case less
  show ?case
  proof (cases "t1 \<le> t_end")
    case False
    with less.prems have "t1 = t_end + 1" by simp
    with False show ?thesis
      by (intro exI[of _ "[]"]) (simp add: breakDownDates_loop.simps)
  next
    case True
    define t2c where "t2c = (if t2 > t_end then t_end else t2)"
    define t1' where "t1' = t2c + 1"
    have b: "t1 \<le> t2c" "t2c \<le> t_end" "t2c - t1 < dt + 1"
      using True less.prems by (auto simp: t2c_def)
    have a1: "datetime_add t2c 1 = Inr t1'"
      using b less.prems by (simp add: datetime_add_def t1'_def)
    have a2: "datetime_add t1' dt = Inr (t1' + dt)"
      using b less.prems by (simp add: datetime_add_def t1'_def)
    have "nat (t_end + 1 - t1') < nat (t_end + 1 - t1)" using b by (simp add: t1'_def)
    from less.hyps[OF this, of "t1' + dt" "acc @ [(strftime t1, strftime t2c)]"]
    obtain ivs where ivs:
      "breakDownDates_loop t_end 1 dt t1' (t1' + dt) (acc @ [(strftime t1, strftime t2c)])
         = Some (Inr ((acc @ [(strftime t1, strftime t2c)]) @ map (\<lambda>(a, b). (strftime a, strftime b)) ivs))"
      "chunks_ok (dt + 1) t1' t_end ivs"
      using b less.prems by (auto simp: t1'_def)
    have "breakDownDates_loop t_end 1 dt t1 t2 acc
            = breakDownDates_loop t_end 1 dt t1' (t1' + dt) (acc @ [(strftime t1, strftime t2c)])"
      using True a1 a2
      by (subst breakDownDates_loop.simps) (simp add: Let_def t2c_def[symmetric])
    with ivs b show ?thesis
      by (intro exI[of _ "(t1, t2c) # ivs"]) (simp add: t1'_def)
  qed
qed

lemma month_alts_range: "(m, r) \<in> set (month_alts s) \<Longrightarrow> 1 \<le> m \<and> m \<le> 12"
  by (auto simp: month_alts_def digit_val_def split: list.splits if_splits)

lemma day_match_range: "day_match s = Some (d, r) \<Longrightarrow> 1 \<le> d"
  by (auto simp: day_match_def digit_val_def is_digit_def split: list.splits if_splits)

lemma first_month_day_range:
  "first_month_day alts = Some (m, d, r) \<Longrightarrow> (\<exists>r'. (m, r') \<in> set alts) \<and> 1 \<le> d"
  by (induction alts) (auto split: option.splits dest: day_match_range)

lemma days_before_year_nonneg: "1 \<le> y \<Longrightarrow> 0 \<le> days_before_year y"
proof -
  assume "1 \<le> y"
  then have "0 \<le> y - 1" by simp
  have "(y - 1) div 100 \<le> (y - 1) div 4" using \<open>0 \<le> y - 1\<close> by (simp add: zdiv_mono2)
  moreover have "0 \<le> (y - 1) div 400" using \<open>0 \<le> y - 1\<close> by simp
  ultimately show ?thesis using \<open>0 \<le> y - 1\<close> by (simp add: days_before_year_def Let_def)
qed

lemma days_before_month_nonneg: "1 \<le> m \<Longrightarrow> m \<le> 12 \<Longrightarrow> 0 \<le> days_before_month y m"
proof -
  assume "1 \<le> m" "m \<le> 12"
  then have "m \<in> {1,2,3,4,5,6,7,8,9,10,11,12}" by (simp; presburger)
  then show ?thesis by (auto simp: days_before_month_def DAYS_BEFORE_MONTH_def)
qed

lemma ymd2ord_ge_1: "1 \<le> y \<Longrightarrow> 1 \<le> m \<Longrightarrow> m \<le> 12 \<Longrightarrow> 1 \<le> d \<Longrightarrow> 1 \<le> ymd2ord y m d"
  using days_before_year_nonneg[of y] days_before_month_nonneg[of m y]
  by (simp add: ymd2ord_def)

lemma strptime_ge_1: "strptime s = Inr t \<Longrightarrow> 1 \<le> t"
  unfolding strptime_def
  by (auto simp: Let_def split: list.splits if_splits option.splits
           dest!: first_month_day_range dest!: month_alts_range intro!: ymd2ord_ge_1)

text \<open>Evaluation of the date functions at the dates of the scenarios.\<close>

lemmas date_eval = strptime_def month_alts_def day_match_def is_digit_def digit_val_def
  days_in_month_def is_leap_def DAYS_IN_MONTH_def DAYS_BEFORE_MONTH_def ymd2ord_def
  days_before_year_def days_before_month_def strftime_def ord2ymd_def rjust_def
  str_nat.simps digit_char_def Let_def MAXORDINAL_def MAX_DELTA_DAYS_def
  timedelta_days_def datetime_add_def

lemma strptime_20130203: "strptime ''20130203'' = Inr 734902"
  by (simp add: date_eval)

lemma strptime_20130207: "strptime ''20130207'' = Inr 734906"
  by (simp add: date_eval)

lemma strptime_99991231: "strptime ''99991231'' = Inr 3652059"
  by (simp add: date_eval)

lemma breakDownDates_scenario:
  "breakDownDates ''20130203'' ''20130207'' 2
       = Some (Inr [(''20130203'', ''20130204''), (''20130205'', ''20130206''),
                    (''20130207'', ''20130207'')])"
  by code_simp

lemma breakDownDates_huge_chunk:
  "breakDownDates ''20130203'' ''20130207'' 3000000 = Some (Inl OverflowError)"
  by (simp add: breakDownDates_def strptime_20130203 strptime_20130207
        timedelta_days_def datetime_add_def MAXORDINAL_def MAX_DELTA_DAYS_def)

lemma breakDownDates_last_day:
  "breakDownDates ''99991231'' ''99991231'' 1 = Some (Inl OverflowError)"
  by (simp add: breakDownDates_def strptime_99991231 breakDownDates_loop.simps
        timedelta_days_def datetime_add_def MAXORDINAL_def MAX_DELTA_DAYS_def)

lemma days_before_year_decomp:
  assumes "0 \<le> b" "b \<le> 3" "0 \<le> c" "c \<le> 24" "0 \<le> d" "d \<le> 3"
  shows "days_before_year (400 * a + 100 * b + 4 * c + d + 1)
         = 146097 * a + 36524 * b + 1461 * c + 365 * d"
proof -
  define Y where "Y = 400 * a + 100 * b + 4 * c + d"
  have "Y div 4 = 100 * a + 25 * b + c" using assms unfolding Y_def by linarith
  moreover have "Y div 100 = 4 * a + b" using assms unfolding Y_def by linarith
  moreover have "Y div 400 = a" using assms unfolding Y_def by linarith
  ultimately show ?thesis
    unfolding days_before_year_def Let_def Y_def[symmetric] by (simp add: Y_def)
qed

lemma is_leap_decomp:
  assumes "0 \<le> b" "b \<le> 3" "0 \<le> c" "c \<le> 24" "0 \<le> d" "d \<le> 3"
  shows "is_leap (400 * a + 100 * b + 4 * c + d + 1) = (d = 3 \<and> (c \<noteq> 24 \<or> b = 3))"
proof -
  define Y where "Y = 400 * a + 100 * b + 4 * c + d + 1"
  have m4: "Y mod 4 = (d + 1) mod 4"
  proof -
    have "Y = (d + 1) + 4 * (100 * a + 25 * b + c)" by (simp add: Y_def)
    then show ?thesis by (metis mod_mult_self2)
  qed
  have m100: "Y mod 100 = (4 * c + d + 1) mod 100"
  proof -
    have "Y = (4 * c + d + 1) + 100 * (4 * a + b)" by (simp add: Y_def)
    then show ?thesis by (metis mod_mult_self2)
  qed
  have m400: "Y mod 400 = (100 * b + 4 * c + d + 1) mod 400"
  proof -
    have "Y = (100 * b + 4 * c + d + 1) + 400 * a" by (simp add: Y_def)
    then show ?thesis by (metis mod_mult_self2)
  qed
  have r: "(x mod m = 0) = (x = m)" if "1 \<le> x" "x \<le> m" for x m :: int
  proof (cases "x = m")
    case True
    then show ?thesis by simp
  next
    case False
    then have "x mod m = x" using that by (simp add: mod_pos_pos_trivial)
    then show ?thesis using False that by simp
  qed
  have e4: "d + 1 = 4 \<longleftrightarrow> d = 3" by auto
  have e100: "4 * c + d + 1 = 100 \<longleftrightarrow> d = 3 \<and> c = 24" using assms by presburger
  have e400: "100 * b + 4 * c + d + 1 = 400 \<longleftrightarrow> d = 3 \<and> c = 24 \<and> b = 3"
  proof
    assume h: "100 * b + 4 * c + d + 1 = 400"
    have "4 * c + d + 1 \<le> 100" using assms by linarith
    then have "b = 3" using h assms by linarith
    then have "4 * c + d + 1 = 100" using h by simp
    then show "d = 3 \<and> c = 24 \<and> b = 3" using e100 \<open>b = 3\<close> by simp
  next
    assume "d = 3 \<and> c = 24 \<and> b = 3"
    then show "100 * b + 4 * c + d + 1 = 400" by simp
  qed
  have a4: "(d + 1) mod 4 = 0 \<longleftrightarrow> d = 3"
    using r[of "d + 1" 4] assms e4 by simp
  have a100: "(4 * c + d + 1) mod 100 = 0 \<longleftrightarrow> d = 3 \<and> c = 24"
    using r[of "4 * c + d + 1" 100] assms e100 by simp
  have a400: "(100 * b + 4 * c + d + 1) mod 400 = 0 \<longleftrightarrow> d = 3 \<and> c = 24 \<and> b = 3"
    using r[of "100 * b + 4 * c + d + 1" 400] assms e400 by simp
  show ?thesis unfolding is_leap_def Y_def[symmetric] m4 m100 m400 a4 a100 a400 by blast
qed

lemma month_part:
  "\<forall>r\<in>{0..364::int}. \<forall>L\<in>{True, False}.
     (let month = (r + 50) div 32;
          preceding = DAYS_BEFORE_MONTH ! nat month + (if month > 2 \<and> L then 1 else 0)
      in if preceding > r
         then (let month = month - 1;
                   preceding = preceding - (DAYS_IN_MONTH ! nat month
                                  + (if month = 2 \<and> L then 1 else 0))
               in 1 \<le> month \<and> month \<le> 12
                  \<and> preceding = DAYS_BEFORE_MONTH ! nat month + (if month > 2 \<and> L then 1 else 0)
                  \<and> preceding \<le> r
                  \<and> r - preceding + 1 \<le> (if month = 2 \<and> L then 29 else DAYS_IN_MONTH ! nat month))
         else 1 \<le> month \<and> month \<le> 12
              \<and> preceding \<le> r
              \<and> r - preceding + 1 \<le> (if month = 2 \<and> L then 29 else DAYS_IN_MONTH ! nat month))"
  by code_simp


lemma ord2ymd_correct:
  assumes "1 \<le> n"
  shows "case ord2ymd n of
           (y, m, d) \<Rightarrow> 1 \<le> y \<and> 1 \<le> m \<and> m \<le> 12 \<and> 1 \<le> d \<and> d \<le> days_in_month y m
                        \<and> ymd2ord y m d = n"
proof -
  define N where "N = n - 1"
  define n400 where "n400 = N div 146097"
  define r400 where "r400 = N mod 146097"
  define n100 where "n100 = r400 div 36524"
  define r100 where "r100 = r400 mod 36524"
  define n4 where "n4 = r100 div 1461"
  define r4 where "r4 = r100 mod 1461"
  define n1 where "n1 = r4 div 365"
  define r1 where "r1 = r4 mod 365"
  have N0: "0 \<le> N" using assms by (simp add: N_def)
  have d400: "N = 146097 * n400 + r400" "0 \<le> r400" "r400 < 146097" "0 \<le> n400"
    using N0 by (simp_all add: n400_def r400_def pos_imp_zdiv_nonneg_iff)
  have d100: "r400 = 36524 * n100 + r100" "0 \<le> r100" "r100 < 36524" "0 \<le> n100"
    using d400 by (simp_all add: n100_def r100_def pos_imp_zdiv_nonneg_iff)
  have d4: "r100 = 1461 * n4 + r4" "0 \<le> r4" "r4 < 1461" "0 \<le> n4"
    using d100 by (simp_all add: n4_def r4_def pos_imp_zdiv_nonneg_iff)
  have d1: "r4 = 365 * n1 + r1" "0 \<le> r1" "r1 < 365" "0 \<le> n1"
    using d4 by (simp_all add: n1_def r1_def pos_imp_zdiv_nonneg_iff)
  have b100: "n100 \<le> 4" using d400 d100 by linarith
  have b4: "n4 \<le> 24" using d100 d4 by linarith
  have b1: "n1 \<le> 4" using d4 d1 by linarith
  define year where "year = n400 * 400 + 1 + n100 * 100 + n4 * 4 + n1"
  define L where "L = (n1 = 3 \<and> (n4 \<noteq> 24 \<or> n100 = 3))"
  define mo where "mo = (r1 + 50) div 32"
  define pr where "pr = DAYS_BEFORE_MONTH ! nat mo + (if mo > 2 \<and> L then 1 else 0)"
  define pr' where "pr' = pr - (DAYS_IN_MONTH ! nat (mo - 1) + (if mo - 1 = 2 \<and> L then 1 else 0))"
  have eq: "ord2ymd n
            = (if n1 = 4 \<or> n100 = 4 then (year - 1, 12, 31)
               else if pr > r1 then (year, mo - 1, r1 - pr' + 1)
               else (year, mo, r1 - pr + 1))"
    unfolding ord2ymd_def Let_def N_def[symmetric] n400_def[symmetric] r400_def[symmetric]
      n100_def[symmetric] r100_def[symmetric] n4_def[symmetric] r4_def[symmetric]
      n1_def[symmetric] r1_def[symmetric] year_def[symmetric] L_def[symmetric]
      mo_def[symmetric] pr_def[symmetric] pr'_def[symmetric]
    by (rule refl)
  have Neq: "n = 146097 * n400 + 36524 * n100 + 1461 * n4 + 365 * n1 + r1 + 1"
    using d400(1) d100(1) d4(1) d1(1) by (simp add: N_def)
  show ?thesis
  proof (cases "n1 = 4 \<or> n100 = 4")
    case True
    have res: "ord2ymd n = (year - 1, 12, 31)" using eq True by simp
    obtain b c where bc: "0 \<le> b" "b \<le> 3" "0 \<le> c" "c \<le> 24"
      and y: "year - 1 = 400 * n400 + 100 * b + 4 * c + 3 + 1"
      and nn: "n = 146097 * n400 + 36524 * b + 1461 * c + 365 * 3 + 366"
      and lp: "c \<noteq> 24 \<or> b = 3"
    proof (cases "n100 = 4")
      case True
      then have "r100 = 0" using d400 d100 by linarith
      then have z: "n4 = 0" "r4 = 0" "n1 = 0" "r1 = 0"
        by (simp_all add: n4_def r4_def n1_def r1_def)
      show ?thesis
        by (rule that[of 3 24]) (simp_all add: year_def True z Neq)
    next
      case False
      then have n14: "n1 = 4" using True by simp
      have b3: "n100 \<le> 3" using False b100 by simp
      have "r1 = 0" using n14 d4 d1 by linarith
      moreover have "n4 \<le> 23" using n14 d100 d4 d1 by linarith
      ultimately show ?thesis
        using d100(4) d4(4) b3
        by (intro that[of n100 n4]) (simp_all add: year_def n14 Neq)
    qed
    have three: "(0 :: int) \<le> 3" "(3 :: int) \<le> 3" by simp_all
    have dby: "days_before_year (year - 1) = 146097 * n400 + 36524 * b + 1461 * c + 365 * 3"
      unfolding y by (rule days_before_year_decomp[OF bc three])
    have leap: "is_leap (year - 1)"
      unfolding y is_leap_decomp[OF bc three] using lp by simp
    have y1: "1 \<le> year - 1" using d400(4) bc unfolding y by linarith
    show ?thesis
      unfolding res
      using y1 leap dby nn
      by (simp add: ymd2ord_def days_in_month_def days_before_month_def DAYS_IN_MONTH_def
            DAYS_BEFORE_MONTH_def)
  next
    case False
    then have b: "n100 \<le> 3" "n1 \<le> 3" using b100 b1 by simp_all
    have yy: "year = 400 * n400 + 100 * n100 + 4 * n4 + n1 + 1" by (simp add: year_def)
    have dby: "days_before_year year = 146097 * n400 + 36524 * n100 + 1461 * n4 + 365 * n1"
      unfolding yy by (rule days_before_year_decomp[OF d100(4) b(1) d4(4) b4 d1(4) b(2)])
    have leap: "is_leap year = L"
      unfolding yy L_def by (rule is_leap_decomp[OF d100(4) b(1) d4(4) b4 d1(4) b(2)])
    have y1: "1 \<le> year" using d400(4) d100(4) d4(4) d1(4) unfolding yy by linarith
    have r1m: "r1 \<in> {0..364}" using d1 by simp
    have Lm: "L \<in> {True, False}" by simp
    note mp = month_part[THEN bspec, OF r1m, THEN bspec, OF Lm,
                unfolded Let_def mo_def[symmetric] pr_def[symmetric] pr'_def[symmetric]]
    show ?thesis
    proof (cases "pr > r1")
      case True
      have res: "ord2ymd n = (year, mo - 1, r1 - pr' + 1)" using eq False True by simp
      from mp True have f: "1 \<le> mo - 1" "mo - 1 \<le> 12"
        "pr' = DAYS_BEFORE_MONTH ! nat (mo - 1) + (if mo - 1 > 2 \<and> L then 1 else 0)"
        "pr' \<le> r1"
        "r1 - pr' + 1 \<le> (if mo - 1 = 2 \<and> L then 29 else DAYS_IN_MONTH ! nat (mo - 1))"
        by simp_all
      show ?thesis
        unfolding res using y1 f dby Neq
        by (simp add: ymd2ord_def days_in_month_def days_before_month_def leap)
    next
      case nt: False
      have res: "ord2ymd n = (year, mo, r1 - pr + 1)" using eq False nt by simp
      from mp nt have f: "1 \<le> mo" "mo \<le> 12" "pr \<le> r1"
        "r1 - pr + 1 \<le> (if mo = 2 \<and> L then 29 else DAYS_IN_MONTH ! nat mo)"
        by simp_all
      show ?thesis
        unfolding res using y1 f dby Neq
        by (simp add: ymd2ord_def days_in_month_def days_before_month_def leap pr_def)
    qed
  qed
qed


lemma div_pred:
  fixes y m :: int
  assumes "0 < m"
  shows "(y - 1) div m = y div m - (if y mod m = 0 then 1 else 0)"
proof (cases "y mod m = 0")
  case True
  have "m * (y div m) + y mod m = y" by (rule mult_div_mod_eq)
  then have "y - 1 = m * (y div m - 1) + (m - 1)" using True by (simp add: algebra_simps)
  from int_div_pos_eq[OF this] assms show ?thesis using True by simp
next
  case False
  have "m * (y div m) + y mod m = y" by (rule mult_div_mod_eq)
  then have a: "y - 1 = m * (y div m) + (y mod m - 1)" by simp
  have "0 \<le> y mod m" "y mod m < m" using assms by simp_all
  then have "0 \<le> y mod m - 1" "y mod m - 1 < m" using False by simp_all
  from int_div_pos_eq[OF a this] show ?thesis using False by simp
qed

lemma days_before_year_step:
  "days_before_year (y + 1) = days_before_year y + (if is_leap y then 366 else 365)"
proof -
  have d4: "(y - 1) div 4 = y div 4 - (if y mod 4 = 0 then 1 else 0)" by (rule div_pred) simp
  have d100: "(y - 1) div 100 = y div 100 - (if y mod 100 = 0 then 1 else 0)"
    by (rule div_pred) simp
  have d400: "(y - 1) div 400 = y div 400 - (if y mod 400 = 0 then 1 else 0)"
    by (rule div_pred) simp
  have "(4 :: int) dvd 100" "(100 :: int) dvd 400" by simp_all
  then have i1: "y mod 100 = 0 \<Longrightarrow> y mod 4 = 0" and i2: "y mod 400 = 0 \<Longrightarrow> y mod 100 = 0"
    by (meson dvd_trans mod_eq_0_iff_dvd)+
  have s: "y + 1 - 1 = y" by simp
  consider (a) "y mod 4 \<noteq> 0" | (b) "y mod 4 = 0" "y mod 100 \<noteq> 0"
    | (c) "y mod 100 = 0" "y mod 400 \<noteq> 0" | (d) "y mod 400 = 0"
    by argo
  then show ?thesis
  proof cases
    case a
    have "y mod 100 \<noteq> 0" using a i1 by argo
    moreover have "y mod 400 \<noteq> 0" using a i1 i2 by argo
    ultimately show ?thesis
      unfolding days_before_year_def Let_def is_leap_def s d4 d100 d400 using a by simp
  next
    case b
    have "y mod 400 \<noteq> 0" using b i2 by argo
    then show ?thesis
      unfolding days_before_year_def Let_def is_leap_def s d4 d100 d400 using b by simp
  next
    case c
    have "y mod 4 = 0" using c i1 by argo
    then show ?thesis
      unfolding days_before_year_def Let_def is_leap_def s d4 d100 d400 using c by simp
  next
    case d
    have "y mod 100 = 0" using d i2 by argo
    moreover have "y mod 4 = 0" using d i1 i2 by argo
    ultimately show ?thesis
      unfolding days_before_year_def Let_def is_leap_def s d4 d100 d400 using d by simp
  qed
qed

lemma days_before_year_mono: "y \<le> y' \<Longrightarrow> days_before_year y \<le> days_before_year y'"
proof (induction y' rule: int_ge_induct)
  case base
  show ?case by simp
next
  case (step i)
  then show ?case using days_before_year_step[of i] by (simp split: if_splits)
qed

lemma month_cases: "1 \<le> m \<Longrightarrow> m \<le> 12 \<Longrightarrow> m \<in> {1, 2, 3, 4, 5, 6, 7, 8, 9, 10, 11, 12 :: int}"
  by (simp; presburger)

lemma ymd2ord_year_bounds:
  assumes "1 \<le> m" "m \<le> 12" "1 \<le> d" "d \<le> days_in_month y m"
  shows "days_before_year y + 1 \<le> ymd2ord y m d" "ymd2ord y m d \<le> days_before_year (y + 1)"
proof -
  from month_cases[OF assms(1,2)]
  have "0 \<le> days_before_month y m
        \<and> days_before_month y m + days_in_month y m \<le> (if is_leap y then 366 else 365)"
    by (auto simp: days_before_month_def days_in_month_def DAYS_BEFORE_MONTH_def DAYS_IN_MONTH_def)
  then show "days_before_year y + 1 \<le> ymd2ord y m d"
    "ymd2ord y m d \<le> days_before_year (y + 1)"
    using assms(3,4) unfolding days_before_year_step ymd2ord_def by (simp_all split: if_splits)
qed

lemma ord2ymd_year_range:
  assumes "ymd2ord 1000 1 1 \<le> n" "n \<le> MAXORDINAL"
  shows "case ord2ymd n of (y, m, d) \<Rightarrow> 1000 \<le> y \<and> y \<le> 9999"
proof -
  have lo: "ymd2ord 1000 1 1 = 364878"
    by (simp add: ymd2ord_def days_before_year_def days_before_month_def DAYS_BEFORE_MONTH_def)
  have n1: "1 \<le> n" using assms(1) lo by simp
  obtain y m d where o: "ord2ymd n = (y, m, d)" by (cases "ord2ymd n")
  from ord2ymd_correct[OF n1] o
  have v: "1 \<le> m" "m \<le> 12" "1 \<le> d" "d \<le> days_in_month y m" and e: "ymd2ord y m d = n"
    by simp_all
  note b = ymd2ord_year_bounds[OF v]
  have "1000 \<le> y"
  proof (rule ccontr)
    assume "\<not> 1000 \<le> y"
    then have "y + 1 \<le> 1000" by simp
    from days_before_year_mono[OF this] have "days_before_year (y + 1) \<le> 364877"
      by (simp add: days_before_year_def)
    then show False using b(2) e assms(1) lo by simp
  qed
  moreover have "y \<le> 9999"
  proof (rule ccontr)
    assume "\<not> y \<le> 9999"
    then have "10000 \<le> y" by simp
    from days_before_year_mono[OF this] have "3652059 \<le> days_before_year y"
      by (simp add: days_before_year_def)
    then show False using b(1) e assms(2) by (simp add: MAXORDINAL_def)
  qed
  ultimately show ?thesis using o by simp
qed


lemma digit_char_digit_val: "digit_val (digit_char k) = int (k mod 10)"
proof -
  have "\<forall>m\<in>{..<10}. digit_val (''0123456789'' ! m) = int m"
    by (simp add: lessThan_nat_numeral lessThan_Suc digit_val_def)
  moreover have "k mod 10 \<in> {..<10}" by simp
  ultimately show ?thesis unfolding digit_char_def by blast
qed

lemma digit_char_is_digit: "is_digit (digit_char k)"
proof -
  have "\<forall>m\<in>{..<10}. is_digit (''0123456789'' ! m)"
    by (simp add: lessThan_nat_numeral lessThan_Suc is_digit_def)
  moreover have "k mod 10 \<in> {..<10}" by simp
  ultimately show ?thesis unfolding digit_char_def by blast
qed

lemma str_nat_4:
  assumes "1000 \<le> k" "k \<le> 9999"
  shows "str_nat k = [digit_char (k div 1000), digit_char (k div 100), digit_char (k div 10),
                      digit_char k]"
proof -
  have e2: "k div 10 div 10 = k div 100" by (simp add: div_mult2_eq)
  have e3: "k div 100 div 10 = k div 1000" by (simp add: div_mult2_eq)
  have b1: "\<not> k < 10" using assms by simp
  have b2: "\<not> k div 10 < 10" using assms by linarith
  have b3: "\<not> k div 100 < 10" using assms by linarith
  have b4: "k div 1000 < 10" using assms by linarith
  have a: "str_nat k = str_nat (k div 10) @ [digit_char k]"
    by (subst str_nat.simps) (simp only: b1 if_False)
  have b: "str_nat (k div 10) = str_nat (k div 100) @ [digit_char (k div 10)]"
    by (subst str_nat.simps) (simp only: b2 if_False e2)
  have c: "str_nat (k div 100) = str_nat (k div 1000) @ [digit_char (k div 100)]"
    by (subst str_nat.simps) (simp only: b3 if_False e3)
  have d: "str_nat (k div 1000) = [digit_char (k div 1000)]"
    by (subst str_nat.simps) (simp only: b4 if_True)
  show ?thesis unfolding a b c d by simp
qed

lemma digits_4:
  fixes k :: nat
  assumes "k \<le> 9999"
  shows "1000 * int (k div 1000 mod 10) + 100 * int (k div 100 mod 10)
         + 10 * int (k div 10 mod 10) + int (k mod 10) = int k"
proof -
  have e2: "k div 10 div 10 = k div 100" by (simp add: div_mult2_eq)
  have e3: "k div 100 div 10 = k div 1000" by (simp add: div_mult2_eq)
  have a: "k = 10 * (k div 10) + k mod 10" by simp
  have b: "k div 10 = 10 * (k div 10 div 10) + k div 10 mod 10" by simp
  have c: "k div 100 = 10 * (k div 100 div 10) + k div 100 mod 10" by simp
  have d: "k div 1000 mod 10 = k div 1000" using assms by simp
  have "1000 * (k div 1000 mod 10) + 100 * (k div 100 mod 10) + 10 * (k div 10 mod 10) + k mod 10
        = k"
    using a b[unfolded e2] c[unfolded e3] d by linarith
  then have "int (1000 * (k div 1000 mod 10) + 100 * (k div 100 mod 10)
                  + 10 * (k div 10 mod 10) + k mod 10) = int k" by (rule arg_cong)
  then show ?thesis by (simp only: of_nat_add of_nat_mult of_nat_numeral)
qed

lemma month_day_parse:
  "\<forall>m\<in>{1..12::nat}. \<forall>d\<in>{1..31::nat}.
     first_month_day (month_alts (rjust 2 CHR ''0'' (str_nat m) @ rjust 2 CHR ''0'' (str_nat d)))
     = Some (int m, int d, [])"
  by code_simp

lemma strptime_strftime:
  assumes "ymd2ord 1000 1 1 \<le> t" "t \<le> MAXORDINAL"
  shows "strptime (strftime t) = Inr t" "length (strftime t) = 8"
proof -
  have lo: "ymd2ord 1000 1 1 = 364878"
    by (simp add: ymd2ord_def days_before_year_def days_before_month_def DAYS_BEFORE_MONTH_def)
  have t1: "1 \<le> t" using assms(1) lo by simp
  obtain y m d where o: "ord2ymd t = (y, m, d)" by (cases "ord2ymd t")
  from ord2ymd_correct[OF t1] o
  have v: "1 \<le> m" "m \<le> 12" "1 \<le> d" "d \<le> days_in_month y m" and e: "ymd2ord y m d = t"
    by simp_all
  from ord2ymd_year_range[OF assms] o have yr: "1000 \<le> y" "y \<le> 9999" by simp_all
  have d31: "d \<le> 31"
    using month_cases[OF v(1,2)] v(4) by (auto simp: days_in_month_def DAYS_IN_MONTH_def split: if_splits)
  define k where "k = nat y"
  have k: "1000 \<le> k" "k \<le> 9999" "int k = y" using yr by (simp_all add: k_def)
  have mm: "nat m \<in> {1..12}" "int (nat m) = m" using v by auto
  have dd: "nat d \<in> {1..31}" "int (nat d) = d" using v d31 by auto
  define r where "r = rjust 2 CHR ''0'' (str_nat (nat m)) @ rjust 2 CHR ''0'' (str_nat (nat d))"
  have p: "first_month_day (month_alts r) = Some (m, d, [])"
    using month_day_parse[THEN bspec, OF mm(1), THEN bspec, OF dd(1)] mm(2) dd(2)
    by (simp add: r_def)
  have s: "strftime t = digit_char (k div 1000) # digit_char (k div 100) # digit_char (k div 10)
                         # digit_char k # r"
    by (simp add: strftime_def o k_def[symmetric] str_nat_4[OF k(1,2)] r_def)
  have yv: "1000 * digit_val (digit_char (k div 1000)) + 100 * digit_val (digit_char (k div 100))
            + 10 * digit_val (digit_char (k div 10)) + digit_val (digit_char k) = y"
    unfolding digit_char_digit_val k(3)[symmetric] by (rule digits_4[OF k(2)])
  show "strptime (strftime t) = Inr t"
    unfolding s strptime_def
    using yr v(4) e by (simp add: digit_char_is_digit p yv Let_def)
  have lr: "length r = 4"
  proof -
    have "\<forall>j\<in>{1..31::nat}. length (rjust 2 CHR ''0'' (str_nat j)) = 2" by code_simp
    moreover have "nat m \<in> {1..31}" using mm(1) by simp
    ultimately show ?thesis using dd(1) unfolding r_def by simp
  qed
  show "length (strftime t) = 8" unfolding s using lr by simp
qed

lemma chunks_ok_bounds:
  "chunks_ok k t e ivs \<Longrightarrow> (a, b) \<in> set ivs \<Longrightarrow> t \<le> a \<and> a \<le> b \<and> b \<le> e"
proof (induction ivs arbitrary: t)
  case Nil
  then show ?case by simp
next
  case (Cons p r)
  obtain a0 b0 where p: "p = (a0, b0)" by (cases p)
  from Cons.prems(1) p have h: "a0 = t" "a0 \<le> b0" "b0 \<le> e" "chunks_ok k (b0 + 1) e r"
    by simp_all
  from Cons.prems(2) p have "(a, b) = (a0, b0) \<or> (a, b) \<in> set r" by simp
  then show ?case
  proof
    assume "(a, b) = (a0, b0)"
    then show ?thesis using h by simp
  next
    assume "(a, b) \<in> set r"
    from Cons.IH[OF h(4) this] show ?thesis using h by simp
  qed
qed

text \<open>
  C1 (as amended).  For start and end dates with start \<open>\<le>\<close> end and a chunk size of at
  least one day, such that the start date is not before 1000-01-01 and the end date plus
  the chunk size does not pass the last representable date 9999-12-31,
  \<^verbatim>\<open>breakDownDates\<close> returns a list of pairs of strings of eight characters.  Read back
  with \<^verbatim>\<open>strptime\<close>, they are the dates of a non-empty list of intervals: the first
  starts at the start date, the last ends at the end date, each is non-empty and has at
  most \<open>days_per_job\<close> days, each starts one day after the end of the one before, and
  together they cover exactly the days from start to end.  For 2013-02-03 to 2013-02-07 in
  chunks of 2 days the result is (20130203, 20130204), (20130205, 20130206),
  (20130207, 20130207).
\<close>

theorem breakDownDates_partition:
  "(\<forall>start_date end_date days_per_job t_start t_end.
      strptime start_date = Inr t_start \<and> strptime end_date = Inr t_end
      \<and> ymd2ord 1000 1 1 \<le> t_start
      \<and> t_start \<le> t_end \<and> 1 \<le> days_per_job \<and> t_end + days_per_job \<le> MAXORDINAL
      \<longrightarrow>
      (\<exists>date_list ivs.
             breakDownDates start_date end_date days_per_job = Some (Inr date_list)
             \<and> date_list = map (\<lambda>(a, b). (strftime a, strftime b)) ivs
             \<and> map (\<lambda>(s, e). (strptime s, strptime e)) date_list
                 = map (\<lambda>(a, b). (Inr a, Inr b)) ivs
             \<and> (\<forall>(s, e)\<in>set date_list. length s = 8 \<and> length e = 8)
             \<and> ivs \<noteq> []
             \<and> fst (hd ivs) = t_start
             \<and> snd (last ivs) = t_end
             \<and> (\<forall>i<length ivs. fst (ivs ! i) \<le> snd (ivs ! i)
                                  \<and> snd (ivs ! i) - fst (ivs ! i) + 1 \<le> days_per_job)
             \<and> (\<forall>i. Suc i < length ivs \<longrightarrow> fst (ivs ! Suc i) = snd (ivs ! i) + 1)
             \<and> (\<Union>(a, b)\<in>set ivs. {a..b}) = {t_start..t_end}))
   \<and> breakDownDates ''20130203'' ''20130207'' 2
       = Some (Inr [(''20130203'', ''20130204''), (''20130205'', ''20130206''),
                    (''20130207'', ''20130207'')])"
proof (intro conjI allI impI)
  fix start_date end_date :: string and days_per_job t_start t_end :: int
  assume h: "strptime start_date = Inr t_start \<and> strptime end_date = Inr t_end
      \<and> ymd2ord 1000 1 1 \<le> t_start
      \<and> t_start \<le> t_end \<and> 1 \<le> days_per_job \<and> t_end + days_per_job \<le> MAXORDINAL"
  define dt where "dt = days_per_job - 1"
  have ge1: "1 \<le> t_start" using h strptime_ge_1 by blast
  have dt: "0 \<le> dt" "t_end + dt + 1 \<le> MAXORDINAL" using h by (simp_all add: dt_def)
  have td: "timedelta_days dt = Inr dt"
    using dt h ge1 by (simp add: timedelta_days_def MAXORDINAL_def MAX_DELTA_DAYS_def)
  have t2: "datetime_add t_start dt = Inr (t_start + dt)"
    using dt h ge1 by (simp add: datetime_add_def)
  have le: "t_start \<le> t_end + 1" using h by simp
  from loop_chunks[OF dt(1) ge1 le dt(2) refl, of "[]"]
  obtain ivs where ivs:
    "breakDownDates_loop t_end 1 dt t_start (t_start + dt) []
       = Some (Inr (map (\<lambda>(a, b). (strftime a, strftime b)) ivs))"
    "chunks_ok (dt + 1) t_start t_end ivs"
    by auto
  have k: "dt + 1 = days_per_job" by (simp add: dt_def)
  note ok = ivs(2)[unfolded k]
  define date_list where "date_list = map (\<lambda>(a, b). (strftime a, strftime b)) ivs"
  have run: "breakDownDates start_date end_date days_per_job = Some (Inr date_list)"
    using h td t2 ivs(1)
    by (simp add: breakDownDates_def dt_def[symmetric] timedelta_days_def MAX_DELTA_DAYS_def
          date_list_def)
  have ne: "ivs \<noteq> []" using ok h by (cases ivs) auto
  have rng: "ymd2ord 1000 1 1 \<le> a \<and> a \<le> MAXORDINAL \<and> ymd2ord 1000 1 1 \<le> b \<and> b \<le> MAXORDINAL"
    if "(a, b) \<in> set ivs" for a b
    using chunks_ok_bounds[OF ok that] h by simp
  have rb: "map (\<lambda>(s, e). (strptime s, strptime e)) date_list
              = map (\<lambda>(a, b). (Inr a, Inr b)) ivs"
    unfolding date_list_def map_map
  proof (rule map_cong[OF refl])
    fix p assume p: "p \<in> set ivs"
    obtain a b where ab: "p = (a, b)" by (cases p)
    from rng[OF p[unfolded ab]] show "((\<lambda>(s, e). (strptime s, strptime e)) \<circ>
                (\<lambda>(a, b). (strftime a, strftime b))) p = (case p of (a, b) \<Rightarrow> (Inr a, Inr b))"
      unfolding ab by (simp add: strptime_strftime(1))
  qed
  have len: "\<forall>(s, e)\<in>set date_list. length s = 8 \<and> length e = 8"
  proof (intro ballI)
    fix q assume "q \<in> set date_list"
    then obtain a b where ab: "(a, b) \<in> set ivs" and q: "q = (strftime a, strftime b)"
      unfolding date_list_def by auto
    from rng[OF ab] show "case q of (s, e) \<Rightarrow> length s = 8 \<and> length e = 8"
      unfolding q by (simp add: strptime_strftime(2))
  qed
  show "\<exists>date_list ivs.
             breakDownDates start_date end_date days_per_job = Some (Inr date_list)
             \<and> date_list = map (\<lambda>(a, b). (strftime a, strftime b)) ivs
             \<and> map (\<lambda>(s, e). (strptime s, strptime e)) date_list
                 = map (\<lambda>(a, b). (Inr a, Inr b)) ivs
             \<and> (\<forall>(s, e)\<in>set date_list. length s = 8 \<and> length e = 8)
             \<and> ivs \<noteq> []
             \<and> fst (hd ivs) = t_start
             \<and> snd (last ivs) = t_end
             \<and> (\<forall>i<length ivs. fst (ivs ! i) \<le> snd (ivs ! i)
                                  \<and> snd (ivs ! i) - fst (ivs ! i) + 1 \<le> days_per_job)
             \<and> (\<forall>i. Suc i < length ivs \<longrightarrow> fst (ivs ! Suc i) = snd (ivs ! i) + 1)
             \<and> (\<Union>(a, b)\<in>set ivs. {a..b}) = {t_start..t_end}"
  proof (intro exI[of _ date_list] exI[of _ ivs] conjI allI impI)
    show "breakDownDates start_date end_date days_per_job = Some (Inr date_list)" by (rule run)
    show "date_list = map (\<lambda>(a, b). (strftime a, strftime b)) ivs" by (rule date_list_def)
    show "map (\<lambda>(s, e). (strptime s, strptime e)) date_list
                 = map (\<lambda>(a, b). (Inr a, Inr b)) ivs" by (rule rb)
    show "\<forall>(s, e)\<in>set date_list. length s = 8 \<and> length e = 8" by (rule len)
    show "ivs \<noteq> []" by (rule ne)
    show "fst (hd ivs) = t_start" by (rule chunks_ok_hd[OF ok ne])
    show "snd (last ivs) = t_end" by (rule chunks_ok_last[OF ok ne])
    show "(\<Union>(a, b)\<in>set ivs. {a..b}) = {t_start..t_end}" by (rule chunks_ok_cover[OF ok])
  next
    fix i assume a: "i < length ivs"
    show "fst (ivs ! i) \<le> snd (ivs ! i)" using chunks_ok_nth[OF ok a] by simp
  next
    fix i assume a: "i < length ivs"
    show "snd (ivs ! i) - fst (ivs ! i) + 1 \<le> days_per_job"
      using chunks_ok_nth[OF ok a] by simp
  next
    fix i assume "Suc i < length ivs"
    from chunks_ok_adj[OF ok this] show "fst (ivs ! Suc i) = snd (ivs ! i) + 1" .
  qed
next
  show "breakDownDates ''20130203'' ''20130207'' 2
       = Some (Inr [(''20130203'', ''20130204''), (''20130205'', ''20130206''),
                    (''20130207'', ''20130207'')])"
    by (rule breakDownDates_scenario)
qed

text \<open>C1 at the scenario of the specification: 2013-02-03 to 2013-02-07 in chunks of 2 days.\<close>

theorem breakDownDates_partition_witness:
  "(strptime ''20130203'' = Inr 734902 \<and> strptime ''20130207'' = Inr 734906
   \<and> ymd2ord 1000 1 1 \<le> 734902
   \<and> (734902 :: int) \<le> 734906 \<and> (1 :: int) \<le> 2 \<and> 734906 + 2 \<le> MAXORDINAL)
   \<and> (\<exists>date_list ivs.
             breakDownDates ''20130203'' ''20130207'' 2 = Some (Inr date_list)
             \<and> date_list = map (\<lambda>(a, b). (strftime a, strftime b)) ivs
             \<and> map (\<lambda>(s, e). (strptime s, strptime e)) date_list
                 = map (\<lambda>(a, b). (Inr a, Inr b)) ivs
             \<and> (\<forall>(s, e)\<in>set date_list. length s = 8 \<and> length e = 8)
             \<and> ivs \<noteq> []
             \<and> fst (hd ivs) = 734902
             \<and> snd (last ivs) = 734906
             \<and> (\<forall>i<length ivs. fst (ivs ! i) \<le> snd (ivs ! i)
                                  \<and> snd (ivs ! i) - fst (ivs ! i) + 1 \<le> 2)
             \<and> (\<forall>i. Suc i < length ivs \<longrightarrow> fst (ivs ! Suc i) = snd (ivs ! i) + 1)
             \<and> (\<Union>(a, b)\<in>set ivs. {a..b}) = {734902..734906})
   \<and> breakDownDates ''20130203'' ''20130207'' 2
       = Some (Inr [(''20130203'', ''20130204''), (''20130205'', ''20130206''),
                    (''20130207'', ''20130207'')])"
proof -
  have lo: "ymd2ord 1000 1 1 \<le> 734902"
    by (simp add: ymd2ord_def days_before_year_def days_before_month_def DAYS_BEFORE_MONTH_def)
  have h: "strptime ''20130203'' = Inr 734902 \<and> strptime ''20130207'' = Inr 734906
   \<and> ymd2ord 1000 1 1 \<le> 734902
   \<and> (734902 :: int) \<le> 734906 \<and> (1 :: int) \<le> 2 \<and> 734906 + 2 \<le> MAXORDINAL"
    using lo by (simp add: strptime_20130203 strptime_20130207 MAXORDINAL_def)
  show ?thesis
    by (intro conjI[OF h] conjI breakDownDates_partition[THEN conjunct1, rule_format, OF h]
          breakDownDates_partition[THEN conjunct2])
qed

text \<open>
  The claim as written, for every start, end and chunk size, fails in two ways.  A chunk
  size that reaches beyond 9999-12-31 (here three million days for a range of five days),
  or a range that ends on 9999-12-31, makes the date arithmetic raise
  \<^verbatim>\<open>OverflowError\<close>.  And before the year 1000 the strings returned are not dates in the
  format of the arguments: for 0001-01-01 to 0001-01-03 in chunks of 2 days the first is
  \<^verbatim>\<open>10101\<close>, which \<^verbatim>\<open>strptime\<close> rejects.
\<close>

theorem breakDownDates_partition_counterexample:
  "strptime ''20130203'' = Inr 734902 \<and> strptime ''20130207'' = Inr 734906
   \<and> breakDownDates ''20130203'' ''20130207'' 3000000 = Some (Inl OverflowError)
   \<and> strptime ''99991231'' = Inr 3652059
   \<and> breakDownDates ''99991231'' ''99991231'' 1 = Some (Inl OverflowError)
   \<and> strptime ''00010101'' = Inr 1 \<and> strptime ''00010103'' = Inr 3
   \<and> breakDownDates ''00010101'' ''00010103'' 2
       = Some (Inr [(''10101'', ''10102''), (''10103'', ''10103'')])
   \<and> strptime ''10101'' = Inl ValueError"
proof -
  have a: "strptime ''00010101'' = Inr 1" "strptime ''00010103'' = Inr 3"
    "strptime ''10101'' = Inl ValueError"
    by (simp_all add: date_eval)
  have b: "breakDownDates ''00010101'' ''00010103'' 2
       = Some (Inr [(''10101'', ''10102''), (''10103'', ''10103'')])"
    by code_simp
  show ?thesis
    by (simp only: strptime_20130203 strptime_20130207 strptime_99991231
          breakDownDates_huge_chunk breakDownDates_last_day a b simp_thms)
qed

section \<open>Properties of \<^verbatim>\<open>replaceControlDates\<close>\<close>

lemma strip_prefix_Some: "strip_prefix p s = Some r \<Longrightarrow> s = p @ r"
  by (induction p s rule: strip_prefix.induct) (auto split: if_splits)

lemma strip_prefix_line:
  "newline \<notin> set name \<Longrightarrow>
   strip_prefix name (l @ newline # t) = map_option (\<lambda>r. r @ newline # t) (strip_prefix name l)"
  by (induction name l rule: strip_prefix.induct) auto

lemma match_assign_Nil: "match_assign name [] = None"
  by (cases name) (simp_all add: match_assign_def)

lemma not_digit_newline: "\<not> is_digit newline"
  by (simp add: is_digit_def newline_def)

lemma match_assign_rest:
  assumes "match_assign name l = Some (g, rest)"
  shows "set rest \<subseteq> set l"
proof -
  from assms obtain r where r: "strip_prefix name l = Some r"
    and rest: "rest = drop 8 (dropWhile (\<lambda>c. c = CHR '' '') r)"
    by (auto simp: match_assign_def Let_def split: option.splits if_splits)
  have "set rest \<subseteq> set r" unfolding rest
    by (meson set_drop_subset set_dropWhileD subsetI subset_trans in_mono)
  moreover have "set r \<subseteq> set l" using strip_prefix_Some[OF r] by auto
  ultimately show ?thesis by blast
qed

lemma match_assign_line:
  assumes "newline \<notin> set name" "newline \<notin> set l"
  shows "match_assign name (l @ newline # t)
         = map_option (\<lambda>(g, r). (g, r @ newline # t)) (match_assign name l)"
proof (cases "strip_prefix name l")
  case None
  then show ?thesis using assms by (simp add: match_assign_def strip_prefix_line)
next
  case (Some r)
  define d where "d = dropWhile (\<lambda>c. c = CHR '' '') r"
  have sp: "strip_prefix name (l @ newline # t) = Some (r @ newline # t)"
    using Some assms by (simp add: strip_prefix_line)
  show ?thesis
  proof (cases "d = []")
    case True
    then have "\<And>x. x \<in> set r \<Longrightarrow> x = CHR '' ''"
      unfolding d_def by (simp add: dropWhile_eq_Nil_conv)
    then have "dropWhile (\<lambda>c. c = CHR '' '') (r @ newline # t) = newline # t"
      by (simp add: dropWhile_append2 newline_def)
    then have "match_assign name (l @ newline # t) = None"
      using sp not_digit_newline by (simp add: match_assign_def Let_def)
    moreover have "match_assign name l = None"
      using Some True by (simp add: match_assign_def Let_def d_def[symmetric])
    ultimately show ?thesis by simp
  next
    case False
    then obtain x where "x \<in> set r" "x \<noteq> CHR '' ''"
      unfolding d_def by (auto simp: dropWhile_eq_Nil_conv)
    then have dw: "dropWhile (\<lambda>c. c = CHR '' '') (r @ newline # t) = d @ newline # t"
      unfolding d_def by (simp add: dropWhile_append1)
    show ?thesis
    proof (cases "8 \<le> length d")
      case True
      then show ?thesis
        using sp Some dw by (simp add: match_assign_def Let_def d_def[symmetric])
    next
      case short: False
      then have "newline \<in> set (take 8 (d @ newline # t))"
        by (cases "8 - length d") (auto simp: take_Cons')
      then have "\<not> list_all is_digit (take 8 (d @ newline # t))"
        using not_digit_newline by (auto simp: list_all_iff)
      then show ?thesis
        using sp Some dw short by (simp add: match_assign_def Let_def d_def[symmetric])
    qed
  qed
qed


text \<open>The scan over one line.\<close>

lemma re_sub_False_line:
  "newline \<notin> set l \<Longrightarrow>
   re_sub name repl False (l @ newline # t) = l @ newline # re_sub name repl True t"
  by (induction l) auto

lemma re_sub_False_last: "newline \<notin> set l \<Longrightarrow> re_sub name repl False l = l"
  by (induction l) auto

lemma re_sub_True_line:
  assumes "newline \<notin> set name" "newline \<notin> set l"
  shows "re_sub name repl True (l @ newline # t)
         = replace_match name repl l @ newline # re_sub name repl True t"
proof (cases l)
  case Nil
  have "match_assign name (newline # t) = None"
    using match_assign_line[OF assms(1), of "[]" t] by (simp add: match_assign_Nil)
  then show ?thesis using Nil by (simp add: replace_match_def match_assign_Nil)
next
  case (Cons c l')
  have c: "c \<noteq> newline" "newline \<notin> set l'" using assms(2) Cons by auto
  note m = match_assign_line[OF assms, of t]
  show ?thesis
  proof (cases "match_assign name l")
    case None
    then have "match_assign name (c # l' @ newline # t) = None" using m Cons by simp
    then show ?thesis using None Cons c by (simp add: replace_match_def re_sub_False_line)
  next
    case (Some a)
    obtain g rest where a: "a = (g, rest)" by (cases a)
    have "newline \<notin> set rest" using match_assign_rest[of name l g rest] Some a assms(2) by auto
    moreover have "match_assign name (c # l' @ newline # t) = Some (g, rest @ newline # t)"
      using m Some a Cons by simp
    ultimately show ?thesis using Some a Cons by (simp add: replace_match_def re_sub_False_line)
  qed
qed

lemma re_sub_True_last:
  assumes "newline \<notin> set l"
  shows "re_sub name repl True l = replace_match name repl l"
proof (cases l)
  case Nil
  then show ?thesis by (simp add: replace_match_def match_assign_Nil)
next
  case (Cons c l')
  have c: "c \<noteq> newline" "newline \<notin> set l'" using assms Cons by auto
  show ?thesis
  proof (cases "match_assign name l")
    case None
    then show ?thesis using Cons c by (simp add: replace_match_def re_sub_False_last)
  next
    case (Some a)
    obtain g rest where a: "a = (g, rest)" by (cases a)
    have "newline \<notin> set rest" using match_assign_rest[of name l g rest] Some a assms by auto
    then show ?thesis using Some a Cons by (simp add: replace_match_def re_sub_False_last)
  qed
qed

lemma re_search_False_line:
  "newline \<notin> set l \<Longrightarrow> re_search name False (l @ newline # t) = re_search name True t"
  by (induction l) auto

lemma re_search_False_last: "newline \<notin> set l \<Longrightarrow> re_search name False l = None"
  by (induction l) auto

lemma re_search_True_line:
  assumes "newline \<notin> set name" "newline \<notin> set l"
  shows "re_search name True (l @ newline # t)
         = (case match_assign name l of Some (g, rest) \<Rightarrow> Some g
            | None \<Rightarrow> re_search name True t)"
proof (cases l)
  case Nil
  have "match_assign name (newline # t) = None"
    using match_assign_line[OF assms(1), of "[]" t] by (simp add: match_assign_Nil)
  then show ?thesis using Nil by (simp add: match_assign_Nil)
next
  case (Cons c l')
  have c: "c \<noteq> newline" "newline \<notin> set l'" using assms(2) Cons by auto
  note m = match_assign_line[OF assms, of t]
  show ?thesis
  proof (cases "match_assign name l")
    case None
    then have "match_assign name (c # l' @ newline # t) = None" using m Cons by simp
    then show ?thesis using None Cons c by (simp add: re_search_False_line)
  next
    case (Some a)
    obtain g rest where a: "a = (g, rest)" by (cases a)
    have "match_assign name (c # l' @ newline # t) = Some (g, rest @ newline # t)"
      using m Some a Cons by simp
    then show ?thesis using Some a Cons by simp
  qed
qed

lemma re_search_True_last:
  assumes "newline \<notin> set l"
  shows "re_search name True l = map_option fst (match_assign name l)"
proof (cases l)
  case Nil
  then show ?thesis by (simp add: match_assign_Nil)
next
  case (Cons c l')
  have c: "c \<noteq> newline" "newline \<notin> set l'" using assms Cons by auto
  then show ?thesis using Cons
    by (cases "match_assign name l") (auto simp: re_search_False_last)
qed

text \<open>Texts as lists of lines.\<close>

lemma split_lines_not_Nil: "split_lines s \<noteq> []"
  by (induction s) (auto split: list.splits)

lemma split_lines_no_newline: "l \<in> set (split_lines s) \<Longrightarrow> newline \<notin> set l"
  by (induction s arbitrary: l) (auto split: list.splits if_splits)

lemma join_split_lines: "join_lines (split_lines s) = s"
proof (induction s)
  case Nil
  show ?case by simp
next
  case (Cons c s)
  obtain l ls where sp: "split_lines s = l # ls"
    using split_lines_not_Nil[of s] by (cases "split_lines s") auto
  show ?case
  proof (cases "c = newline")
    case True
    then show ?thesis using Cons sp by simp
  next
    case False
    then show ?thesis using Cons sp by (cases ls) auto
  qed
qed

lemma join_lines_Cons: "ls \<noteq> [] \<Longrightarrow> join_lines (l # ls) = l @ newline # join_lines ls"
  by (cases ls) auto

lemma re_sub_join_lines:
  assumes "newline \<notin> set name" "ls \<noteq> []" "\<And>l. l \<in> set ls \<Longrightarrow> newline \<notin> set l"
  shows "re_sub name repl True (join_lines ls) = join_lines (map (replace_match name repl) ls)"
  using assms(2,3)
proof (induction ls rule: list_nonempty_induct)
  case (single l)
  then show ?case by (simp add: re_sub_True_last)
next
  case (cons l ls)
  then show ?case
    by (simp add: join_lines_Cons re_sub_True_line[OF assms(1)])
qed

lemma re_search_join_lines:
  assumes "newline \<notin> set name" "ls \<noteq> []" "\<And>l. l \<in> set ls \<Longrightarrow> newline \<notin> set l"
  shows "(re_search name True (join_lines ls) = None) = (\<not> list_ex (assigns name) ls)"
  using assms(2,3)
proof (induction ls rule: list_nonempty_induct)
  case (single l)
  then show ?case
    by (cases "match_assign name l") (auto simp: re_search_True_last assigns_def)
next
  case (cons l ls)
  then show ?case
    by (auto simp: join_lines_Cons re_search_True_line[OF assms(1)] assigns_def
             split: option.splits)
qed


lemma rewrite_line_id: "\<not> assigns name l \<Longrightarrow> rewrite_line name v l = l"
  by (cases "match_assign name l") (auto simp: rewrite_line_def assigns_def)

lemma replace_match_rewrite_line:
  "replace_match name (name @ '' '' @ v) = rewrite_line name v"
  by (rule ext) (simp add: replace_match_def rewrite_line_def split: option.splits)

lemma rewrite_line_no_newline:
  assumes "newline \<notin> set name" "newline \<notin> set v" "newline \<notin> set l"
  shows "newline \<notin> set (rewrite_line name v l)"
proof (cases "match_assign name l")
  case None
  then show ?thesis using assms by (simp add: rewrite_line_def)
next
  case (Some a)
  obtain g rest where a: "a = (g, rest)" by (cases a)
  have "newline \<notin> set rest" using match_assign_rest[of name l g rest] Some a assms(3) by auto
  then show ?thesis using Some a assms by (simp add: rewrite_line_def newline_def)
qed

lemma assigns_prefix: "assigns name l \<Longrightarrow> \<exists>r. l = name @ r"
  by (auto simp: assigns_def match_assign_def split: option.splits dest: strip_prefix_Some)

lemma rewrite_step:
  assumes "newline \<notin> set name" "ls \<noteq> []" "\<And>l. l \<in> set ls \<Longrightarrow> newline \<notin> set l"
  shows "snd (case re_search name True (join_lines ls) of
               None \<Rightarrow> (m, (name @ '' '' @ v) @ [newline] @ join_lines ls)
             | Some g \<Rightarrow> ([], re_sub name (name @ '' '' @ v) True (join_lines ls)))
         = join_lines ((if list_ex (assigns name) ls then [] else [name @ '' '' @ v])
                       @ map (rewrite_line name v) ls)"
proof (cases "list_ex (assigns name) ls")
  case True
  then obtain g where "re_search name True (join_lines ls) = Some g"
    using re_search_join_lines[OF assms] by (cases "re_search name True (join_lines ls)") auto
  then show ?thesis
    using True re_sub_join_lines[OF assms, of "name @ '' '' @ v"]
    unfolding replace_match_rewrite_line by simp
next
  case False
  then have n: "re_search name True (join_lines ls) = None"
    using re_search_join_lines[OF assms] by simp
  have "map (rewrite_line name v) ls = ls"
    using False by (intro map_idI rewrite_line_id) (auto simp: list_ex_iff)
  then show ?thesis using False n assms(2) by (simp add: join_lines_Cons)
qed

lemma is_date8_no_newline: "is_date8 s \<Longrightarrow> newline \<notin> set s"
  using not_digit_newline by (auto simp: is_date8_def list_all_iff)

lemma not_START_of_END: "\<not> assigns ''START_DATE'' (''END_DATE'' @ r)"
  by (auto dest: assigns_prefix)

lemma assigns_START_rewrite_END:
  "assigns ''START_DATE'' (rewrite_line ''END_DATE'' v l) = assigns ''START_DATE'' l"
proof (cases "assigns ''END_DATE'' l")
  case False
  then show ?thesis by (simp add: rewrite_line_id)
next
  case True
  then obtain r where l: "l = ''END_DATE'' @ r" using assigns_prefix by blast
  from True obtain g rest where "match_assign ''END_DATE'' l = Some (g, rest)"
    by (auto simp: assigns_def)
  then have "rewrite_line ''END_DATE'' v l = ''END_DATE'' @ ('' '' @ v @ rest)"
    by (simp add: rewrite_line_def)
  then show ?thesis using not_START_of_END[of "'' '' @ v @ rest"] not_START_of_END[of r] l
    by simp
qed


lemma not_END_of_START: "\<not> assigns ''END_DATE'' (''START_DATE'' @ r)"
  by (auto dest: assigns_prefix)

lemma rewrite_line_commute:
  "rewrite_line ''START_DATE'' s (rewrite_line ''END_DATE'' e l)
   = rewrite_line ''END_DATE'' e (rewrite_line ''START_DATE'' s l)"
proof (cases "assigns ''END_DATE'' l")
  case False
  show ?thesis
  proof (cases "assigns ''START_DATE'' l")
    case nS: False
    with False show ?thesis by (simp add: rewrite_line_id)
  next
    case True
    then obtain g rest where "match_assign ''START_DATE'' l = Some (g, rest)"
      by (auto simp: assigns_def)
    then have r: "rewrite_line ''START_DATE'' s l = ''START_DATE'' @ ('' '' @ s @ rest)"
      by (simp add: rewrite_line_def)
    have "rewrite_line ''END_DATE'' e (rewrite_line ''START_DATE'' s l)
          = rewrite_line ''START_DATE'' s l"
      unfolding r by (rule rewrite_line_id[OF not_END_of_START])
    with False show ?thesis by (simp add: rewrite_line_id)
  qed
next
  case True
  then have nS: "\<not> assigns ''START_DATE'' l"
    using assigns_prefix[OF True] not_START_of_END by auto
  have "\<not> assigns ''START_DATE'' (rewrite_line ''END_DATE'' e l)"
    using nS by (simp add: assigns_START_rewrite_END)
  with nS show ?thesis by (simp add: rewrite_line_id)
qed

text \<open>
  C7.  For every base text and every pair of date strings of eight digits, the text that
  \<^verbatim>\<open>replaceControlDates\<close> returns consists of these lines: a new line
  \<^verbatim>\<open>START_DATE <start>\<close> if no line of the base assigns \<^verbatim>\<open>START_DATE\<close>, then a new line
  \<^verbatim>\<open>END_DATE <end>\<close> if no line of the base assigns \<^verbatim>\<open>END_DATE\<close>, then every line of the
  base in its place, a line that assigns one of the two fields with the value replaced
  and every other line unchanged.  A line assigns a field when it starts with the
  field's name, one or more spaces and eight digits.  The lines of a text determine it,
  and the two rewritings of a line do not depend on their order.
\<close>

theorem replaceControlDates_lines:
  assumes "is_date8 start_date" "is_date8 end_date"
  shows "snd (replaceControlDates ctrl_str start_date end_date)
         = join_lines
             ((if list_ex (assigns ''START_DATE'') (split_lines ctrl_str) then []
               else [''START_DATE '' @ start_date])
              @ (if list_ex (assigns ''END_DATE'') (split_lines ctrl_str) then []
                 else [''END_DATE '' @ end_date])
              @ map (rewrite_line ''START_DATE'' start_date \<circ> rewrite_line ''END_DATE'' end_date)
                    (split_lines ctrl_str))
         \<and> join_lines (split_lines ctrl_str) = ctrl_str
         \<and> (\<forall>l. rewrite_line ''START_DATE'' start_date (rewrite_line ''END_DATE'' end_date l)
                  = rewrite_line ''END_DATE'' end_date (rewrite_line ''START_DATE'' start_date l))"
proof (intro conjI allI)
  define ls where "ls = split_lines ctrl_str"
  have c: "ctrl_str = join_lines ls" by (simp add: ls_def join_split_lines)
  have ne: "ls \<noteq> []" by (simp add: ls_def split_lines_not_Nil)
  have nl: "\<And>l. l \<in> set ls \<Longrightarrow> newline \<notin> set l"
    unfolding ls_def by (rule split_lines_no_newline)
  have nE: "newline \<notin> set ''END_DATE''" and nS: "newline \<notin> set ''START_DATE''"
    by (simp_all add: newline_def)
  note ne_e = is_date8_no_newline[OF assms(2)]
  define pe where
    "pe = (if list_ex (assigns ''END_DATE'') ls then [] else [''END_DATE '' @ end_date])"
  define ps where
    "ps = (if list_ex (assigns ''START_DATE'') ls then [] else [''START_DATE '' @ start_date])"
  define ls1 where "ls1 = pe @ map (rewrite_line ''END_DATE'' end_date) ls"
  have ne1: "ls1 \<noteq> []" using ne by (simp add: ls1_def)
  have nl1: "\<And>l. l \<in> set ls1 \<Longrightarrow> newline \<notin> set l"
    using nl ne_e rewrite_line_no_newline[OF nE ne_e]
    by (auto simp: ls1_def pe_def newline_def split: if_splits)
  have ex1: "list_ex (assigns ''START_DATE'') ls1 = list_ex (assigns ''START_DATE'') ls"
    using not_START_of_END[of "'' '' @ end_date"]
    by (auto simp: ls1_def pe_def list_ex_iff assigns_START_rewrite_END)
  have id_pe: "map (rewrite_line ''START_DATE'' start_date) pe = pe"
    using not_START_of_END[of "'' '' @ end_date"]
    by (auto simp: pe_def rewrite_line_id)
  obtain o1 where A:
    "(case re_search ''END_DATE'' True ctrl_str of
               None \<Rightarrow> ([''END_DATE line not in CONTROL file. Add line.''],
                         ''END_DATE '' @ end_date @ [newline] @ ctrl_str)
             | Some g \<Rightarrow> ([], re_sub ''END_DATE'' (''END_DATE '' @ end_date) True ctrl_str))
     = (o1, join_lines ls1)"
    using rewrite_step[OF nE ne nl, of "[''END_DATE line not in CONTROL file. Add line.'']" end_date]
    unfolding c[symmetric] ls1_def pe_def
    by (cases "re_search ''END_DATE'' True ctrl_str") auto
  obtain o2 where B:
    "(case re_search ''START_DATE'' True (join_lines ls1) of
               None \<Rightarrow> ([''START_DATE line not in CONTROL file. Add line.''],
                         ''START_DATE '' @ start_date @ [newline] @ join_lines ls1)
             | Some g \<Rightarrow> ([], re_sub ''START_DATE'' (''START_DATE '' @ start_date) True (join_lines ls1)))
     = (o2, join_lines (ps @ map (rewrite_line ''START_DATE'' start_date) ls1))"
    using rewrite_step[OF nS ne1 nl1, of "[''START_DATE line not in CONTROL file. Add line.'']" start_date]
    unfolding ex1 ps_def
    by (cases "re_search ''START_DATE'' True (join_lines ls1)") auto
  have "snd (replaceControlDates ctrl_str start_date end_date)
        = join_lines (ps @ map (rewrite_line ''START_DATE'' start_date) ls1)"
    unfolding replaceControlDates_def Let_def A prod.case B by simp
  also have "map (rewrite_line ''START_DATE'' start_date) ls1
        = pe @ map (rewrite_line ''START_DATE'' start_date \<circ> rewrite_line ''END_DATE'' end_date) ls"
    using id_pe by (simp add: ls1_def)
  finally show "snd (replaceControlDates ctrl_str start_date end_date)
         = join_lines
             ((if list_ex (assigns ''START_DATE'') (split_lines ctrl_str) then []
               else [''START_DATE '' @ start_date])
              @ (if list_ex (assigns ''END_DATE'') (split_lines ctrl_str) then []
                 else [''END_DATE '' @ end_date])
              @ map (rewrite_line ''START_DATE'' start_date \<circ> rewrite_line ''END_DATE'' end_date)
                    (split_lines ctrl_str))"
    by (simp add: ps_def pe_def ls_def)
next
  show "join_lines (split_lines ctrl_str) = ctrl_str" by (rule join_split_lines)
next
  fix l
  show "rewrite_line ''START_DATE'' start_date (rewrite_line ''END_DATE'' end_date l)
        = rewrite_line ''END_DATE'' end_date (rewrite_line ''START_DATE'' start_date l)"
    by (rule rewrite_line_commute)
qed


lemma is_date8_20130205: "is_date8 ''20130205''"
  by (simp add: is_date8_def is_digit_def)

lemma is_date8_20130206: "is_date8 ''20130206''"
  by (simp add: is_date8_def is_digit_def)

lemma replaceControlDates_example:
  "replaceControlDates ''START_DATE 20130101\<newline>FOO 1\<newline>'' ''20130205'' ''20130206''
   = ([''END_DATE line not in CONTROL file. Add line.''],
      ''END_DATE 20130206\<newline>START_DATE 20130205\<newline>FOO 1\<newline>'')"
  by code_simp

text \<open>
  The scenario of C7: a base without an \<^verbatim>\<open>END_DATE\<close> line, rewritten for
  (20130205, 20130206), gets the line \<^verbatim>\<open>END_DATE 20130206\<close> in front and its
  \<^verbatim>\<open>START_DATE\<close> line updated.
\<close>

theorem replaceControlDates_lines_witness:
  "is_date8 ''20130205'' \<and> is_date8 ''20130206''
   \<and> \<not> list_ex (assigns ''END_DATE'') (split_lines ''START_DATE 20130101\<newline>FOO 1\<newline>'')
   \<and> join_lines
        ((if list_ex (assigns ''START_DATE'') (split_lines ''START_DATE 20130101\<newline>FOO 1\<newline>'')
          then [] else [''START_DATE '' @ ''20130205''])
         @ (if list_ex (assigns ''END_DATE'') (split_lines ''START_DATE 20130101\<newline>FOO 1\<newline>'')
            then [] else [''END_DATE '' @ ''20130206''])
         @ map (rewrite_line ''START_DATE'' ''20130205'' \<circ> rewrite_line ''END_DATE'' ''20130206'')
               (split_lines ''START_DATE 20130101\<newline>FOO 1\<newline>''))
     = ''END_DATE 20130206\<newline>START_DATE 20130205\<newline>FOO 1\<newline>''"
proof -
  note t = replaceControlDates_lines[OF is_date8_20130205 is_date8_20130206,
              of "''START_DATE 20130101\<newline>FOO 1\<newline>''", THEN conjunct1]
  have a: "\<not> list_ex (assigns ''END_DATE'') (split_lines ''START_DATE 20130101\<newline>FOO 1\<newline>'')"
    by code_simp
  show ?thesis
    using is_date8_20130205 is_date8_20130206 a t[symmetric]
    by (simp only: replaceControlDates_example snd_conv simp_thms)
qed

section \<open>Properties of the runner\<close>

lemma loop_all_timeouts:
  assumes "\<forall>i. \<exists>e. proc i = Started e StillRunning" "int tried \<le> retry + 1"
  shows "\<exists>w'. launchJob_loop proc args (Some t) retry tried ret w = Some (Inr ret, w')
              \<and> launched w' = launched w @ replicate (nat (retry + 1 - int tried)) args
              \<and> kills w' = kills w + nat (retry + 1 - int tried)
              \<and> written w' = written w \<and> stdout w' = stdout w"
  using assms(2)
proof (induction "nat (retry + 1 - int tried)" arbitrary: tried w)
  case 0
  then have "\<not> int tried \<le> retry" by simp
  then show ?case using 0 by (subst launchJob_loop.simps) simp
next
  case (Suc k)
  then have le: "int tried \<le> retry" by simp
  obtain e where e: "proc tried = Started e StillRunning" using assms(1) by blast
  define w1 where "w1 = w\<lparr>launched := launched w @ [args], fs := e (fs w), kills := kills w + 1\<rparr>"
  have step: "launchJob_loop proc args (Some t) retry tried ret w
        = launchJob_loop proc args (Some t) retry (tried + 1) ret w1"
    using le e by (subst launchJob_loop.simps) (simp add: w1_def Let_def)
  have k: "k = nat (retry + 1 - int (tried + 1))" using Suc(2) by simp
  have "int (tried + 1) \<le> retry + 1" using le by simp
  from Suc(1)[OF k this, of w1]
  obtain w' where w': "launchJob_loop proc args (Some t) retry (tried + 1) ret w1 = Some (Inr ret, w')"
    "launched w' = launched w1 @ replicate (nat (retry + 1 - int (tried + 1))) args"
    "kills w' = kills w1 + nat (retry + 1 - int (tried + 1))"
    "written w' = written w1" "stdout w' = stdout w1"
    by blast
  have r: "nat (retry + 1 - int tried) = Suc k" using Suc(2) by simp
  show ?case
    using step w' k unfolding r
    by (intro exI[of _ w']) (simp add: w1_def)
qed


lemma can_write_open_w: "can_write w p \<Longrightarrow> open_w p w = Inr (w\<lparr>fs := (fs w)(p \<mapsto> File [])\<rparr>)"
  by (simp add: open_w_def)

text \<open>
  C3.  With a timeout, a retry bound of at least 0 and a log file that can be opened, if
  the process is started and is still running when the timeout is over at every try,
  then \<^verbatim>\<open>launchJob\<close> returns 1 (a failure), having started the process exactly
  \<open>retry + 1\<close> times and killed it as many times, and having written no marker.
\<close>

theorem launchJob_always_timeout:
  assumes "can_write w logfilename" "0 \<le> retry"
      and "\<forall>i. \<exists>e. proc i = Started e StillRunning"
  shows "\<exists>w'. launchJob proc args job_dates logfilename (Some t) retry w = Some (Inr 1, w')
              \<and> launched w' = launched w @ replicate (nat retry + 1) args
              \<and> kills w' = kills w + (nat retry + 1)
              \<and> written w' = written w"
proof -
  define w0 where "w0 = w\<lparr>fs := (fs w)(logfilename \<mapsto> File [])\<rparr>"
  have start: "launchJob proc args job_dates logfilename (Some t) retry w
               = launchJob_loop proc args (Some t) retry 0 1 w0"
    using assms(1) by (simp add: launchJob_def can_write_open_w w0_def)
  have "int 0 \<le> retry + 1" using assms(2) by simp
  from loop_all_timeouts[OF assms(3) this, of args t 1 w0]
  obtain w' where w': "launchJob_loop proc args (Some t) retry 0 1 w0 = Some (Inr 1, w')"
    "launched w' = launched w0 @ replicate (nat (retry + 1 - int 0)) args"
    "kills w' = kills w0 + nat (retry + 1 - int 0)"
    "written w' = written w0"
    by blast
  have n: "nat (retry + 1 - int 0) = nat retry + 1" using assms(2) by simp
  show ?thesis
    using start w' unfolding n by (intro exI[of _ w']) (simp add: w0_def)
qed

lemma scenario_can_write_log: "can_write scenario_world ''j_0.txt''"
  by (simp add: can_write_def scenario_world_def)

text \<open>C3 at a job with three retries: four launches, four kills.\<close>

theorem launchJob_always_timeout_witness:
  "(can_write scenario_world ''j_0.txt'' \<and> (0 :: int) \<le> 3
    \<and> (\<forall>i. \<exists>e. always_times_out i = Started e StillRunning))
   \<and> (\<exists>w'. launchJob always_times_out scenario_args (''0'', ''20130206'', ''20130206'')
                ''j_0.txt'' (Some 14400) 3 scenario_world = Some (Inr 1, w')
              \<and> launched w' = launched scenario_world @ replicate (nat 3 + 1) scenario_args
              \<and> kills w' = kills scenario_world + (nat 3 + 1)
              \<and> written w' = written scenario_world)"
proof -
  have h3: "\<forall>i. \<exists>e. always_times_out i = Started e StillRunning"
    by (simp add: always_times_out_def)
  have h2: "(0 :: int) \<le> 3" by simp
  show ?thesis
    using scenario_can_write_log h2 h3
      launchJob_always_timeout[OF scenario_can_write_log h2 h3]
    by blast
qed




lemmas runner_eval = launchJob_def open_w_def can_write_def path_exists_def write_file_def
  arg_after_def path_join_def scenario_world_def scenario_args_def readonly_world_def
  exits_with_def never_starts_def wait_raises_def always_times_out_def Let_def


lemma launchJob_success_example:
  "launchJob (exits_with 0) scenario_args (''0'', ''20130206'', ''20130206'') ''j_0.txt''
     (Some 14400) 3 scenario_world
   = Some (Inr 0,
       scenario_world\<lparr>fs := [''/data/j_0_out'' \<mapsto> Dir, ''j_0.txt'' \<mapsto> File [],
                              ''/data/j_0_out/job_done'' \<mapsto> File ''job done.''],
                        launched := [scenario_args],
                        written := [(''/data/j_0_out/job_done'', ''job done.'')]\<rparr>)"
  by (subst launchJob_def, simp add: runner_eval, subst launchJob_loop.simps)
     (simp add: runner_eval)







text \<open>
  C4 says that a process that cannot be started makes the job fail without a retry and
  that \<^verbatim>\<open>launchJob\<close> still returns a result.  \<^verbatim>\<open>subprocess.Popen\<close> is called outside the
  \<^verbatim>\<open>try\<close> statement, so at this input its exception leaves \<^verbatim>\<open>launchJob\<close>: the result
  is the exception, not a return value.  The two lemmas after it are the parts of C4 that
  hold: an error raised by \<^verbatim>\<open>wait\<close> ends the job with result 1 after one try, and a log
  file that cannot be opened raises before any launch.
\<close>

theorem launchJob_launch_failure_raises:
  "never_starts 0 = LaunchFails
   \<and> can_write scenario_world ''j_0.txt''
   \<and> launchJob never_starts scenario_args (''0'', ''20130206'', ''20130206'') ''j_0.txt''
        (Some 14400) 3 scenario_world
      = Some (Inl OSError,
          scenario_world\<lparr>fs := [''/data/j_0_out'' \<mapsto> Dir, ''j_0.txt'' \<mapsto> File []]\<rparr>)"
  by (subst launchJob_def, simp add: runner_eval, subst launchJob_loop.simps)
     (simp add: runner_eval)

lemma launchJob_wait_error_returns:
  assumes "can_write w logfilename" "0 \<le> retry" "proc 0 = Started effect WaitRaises"
  shows "launchJob proc args job_dates logfilename timeout retry w
         = Some (Inr 1, w\<lparr>fs := effect ((fs w)(logfilename \<mapsto> File [])),
                            launched := launched w @ [args]\<rparr>)"
proof -
  define w0 where "w0 = w\<lparr>fs := (fs w)(logfilename \<mapsto> File [])\<rparr>"
  have "launchJob proc args job_dates logfilename timeout retry w
               = launchJob_loop proc args timeout retry 0 1 w0"
    using assms(1) by (simp add: launchJob_def can_write_open_w w0_def)
  also have "\<dots> = Some (Inr 1, w0\<lparr>launched := launched w0 @ [args], fs := effect (fs w0)\<rparr>)"
    using assms(2,3) by (subst launchJob_loop.simps) (simp add: Let_def)
  finally show ?thesis by (simp add: w0_def)
qed

lemma launchJob_unwritable_log_raises:
  "\<not> can_write w logfilename \<Longrightarrow>
   launchJob proc args job_dates logfilename timeout retry w = Some (Inl OSError, w)"
  by (simp add: launchJob_def open_w_def)

section \<open>Job ids and paths\<close>

text \<open>Job ids: the decimal value of the id of position \<open>i\<close> is \<open>i\<close>.\<close>

lemma digit_char_in: "digit_char k \<in> set ''0123456789''"
proof -
  have "k mod 10 < length ''0123456789''" by simp
  then show ?thesis unfolding digit_char_def by (rule nth_mem)
qed

lemma digit_char_val: "of_char (digit_char k) - 48 = k mod 10"
proof -
  have "\<forall>m\<in>{..<10 :: nat}. of_char (''0123456789'' ! m) - 48 = m"
    by (simp add: lessThan_nat_numeral lessThan_Suc)
  moreover have "k mod 10 \<in> {..<10}" by simp
  ultimately show ?thesis unfolding digit_char_def by blast
qed

lemma str_nat_not_Nil: "str_nat k \<noteq> []"
  by (subst str_nat.simps) simp

lemma last_str_nat: "last (str_nat k) = digit_char k"
  by (subst str_nat.simps) simp

lemma digits_val_snoc: "digits_val (s @ [c]) = 10 * digits_val s + (of_char c - 48)"
  by (simp add: digits_val_def)

lemma digits_val_str_nat: "digits_val (str_nat k) = k"
proof (induction k rule: str_nat.induct)
  case (1 n)
  show ?case
  proof (cases "n < 10")
    case True
    then show ?thesis
      by (subst str_nat.simps) (simp add: digits_val_def digit_char_val)
  next
    case False
    then have "digits_val (str_nat n) = 10 * digits_val (str_nat (n div 10)) + n mod 10"
      by (subst str_nat.simps) (simp add: digits_val_snoc digit_char_val)
    with 1 False show ?thesis by simp
  qed
qed

lemma digits_val_zeros: "digits_val (replicate k CHR ''0'' @ s) = digits_val s"
proof -
  have "foldl (\<lambda>a c. 10 * a + (of_char c - 48)) 0 (replicate k CHR ''0'') = (0 :: nat)"
    by (induction k) simp_all
  then show ?thesis by (simp add: digits_val_def)
qed

lemma digits_val_job_id: "digits_val (job_id n i) = i"
  by (simp add: job_id_def rjust_def digits_val_zeros digits_val_str_nat)

lemma job_id_inj:
  assumes "job_id n i = job_id n j"
  shows "i = j"
proof -
  have "digits_val (job_id n i) = digits_val (job_id n j)" by (simp only: assms)
  then show ?thesis by (simp only: digits_val_job_id)
qed

lemma job_id_not_Nil: "job_id n i \<noteq> []"
  by (simp add: job_id_def rjust_def str_nat_not_Nil)

lemma last_job_id: "last (job_id n i) = digit_char i"
  by (simp add: job_id_def rjust_def str_nat_not_Nil last_str_nat)

text \<open>Paths: copies of the CONTROL file, markers and the base CONTROL file are different files.\<close>

lemma last_path_join: "b \<noteq> [] \<Longrightarrow> last (path_join a b) = last b"
  by (simp add: path_join_def)

lemma last_control_copy_path:
  "last (control_copy_path ctrl_folder ctrl_fname job_prefix (job_id n i)) = digit_char i"
  using job_id_not_Nil[of n i]
  by (simp add: control_copy_path_def last_path_join last_job_id)

lemma control_copy_path_not_marker:
  "control_copy_path ctrl_folder ctrl_fname job_prefix (job_id n i) \<noteq> path_join od ''job_done''"
proof
  assume "control_copy_path ctrl_folder ctrl_fname job_prefix (job_id n i) = path_join od ''job_done''"
  then have "digit_char i = last (path_join od ''job_done'')"
    using last_control_copy_path[of ctrl_folder ctrl_fname job_prefix n i] by simp
  then have "digit_char i = CHR ''e''" by (simp add: last_path_join)
  then show False using digit_char_in[of i] by auto
qed

lemma path_join_inj:
  assumes "path_join a (x @ b1) = path_join a (x @ b2)" "x \<noteq> []"
  shows "b1 = b2"
proof -
  have "hd (x @ b1) = hd x" "hd (x @ b2) = hd x" using assms(2) by simp_all
  then show ?thesis using assms by (auto simp: path_join_def split: if_splits)
qed

lemma control_copy_path_inj:
  assumes "control_copy_path ctrl_folder ctrl_fname job_prefix (job_id n i)
           = control_copy_path ctrl_folder ctrl_fname job_prefix (job_id n j)"
  shows "i = j"
proof -
  have "path_join ctrl_folder ((ctrl_fname @ ''_'' @ job_prefix @ ''_'') @ job_id n i)
        = path_join ctrl_folder ((ctrl_fname @ ''_'' @ job_prefix @ ''_'') @ job_id n j)"
    using assms by (simp add: control_copy_path_def)
  then have "job_id n i = job_id n j" by (rule path_join_inj) simp
  then show ?thesis by (rule job_id_inj)
qed

lemma rev_split_While: "rev (dropWhile P (rev xs)) @ rev (takeWhile P (rev xs)) = xs"
proof -
  have "rev (takeWhile P (rev xs) @ dropWhile P (rev xs)) = xs" by simp
  then show ?thesis by (simp only: rev_append)
qed

lemma path_split_decomp:
  assumes "path_split p = (head, tail)"
  shows "\<exists>z. p = head @ z @ tail \<and> set z \<subseteq> {CHR ''/''} \<and> CHR ''/'' \<notin> set tail"
proof -
  define H0 where "H0 = rev (dropWhile (\<lambda>c. c \<noteq> CHR ''/'') (rev p))"
  note a = assms[unfolded path_split_def Let_def]
  have tail: "tail = rev (takeWhile (\<lambda>c. c \<noteq> CHR ''/'') (rev p))"
    using a by (rule Pair_inject) simp
  have p: "p = H0 @ tail"
    unfolding H0_def tail by (rule rev_split_While[symmetric])
  have nt: "CHR ''/'' \<notin> set tail"
    unfolding tail by (auto dest: set_takeWhileD)
  have "take (length p - length tail) p = H0" using p by simp
  then have A: "take (length p - length (rev (takeWhile (\<lambda>c. c \<noteq> CHR ''/'') (rev p)))) p = H0"
    unfolding tail .
  have head: "head = (if H0 \<noteq> [] \<and> H0 \<noteq> replicate (length H0) CHR ''/'' then rstrip_sep H0 else H0)"
    using a unfolding A by (rule Pair_inject) simp
  show ?thesis
  proof (cases "H0 \<noteq> [] \<and> H0 \<noteq> replicate (length H0) CHR ''/''")
    case False
    then have "head = H0" using head by auto
    then show ?thesis using p nt by (intro exI[of _ "[]"]) simp
  next
    case True
    define z where "z = rev (takeWhile (\<lambda>c. c = CHR ''/'') (rev H0))"
    have "head = rstrip_sep H0" using head True by simp
    then have "H0 = head @ z"
      unfolding z_def rstrip_sep_def by (simp only: rev_split_While)
    moreover have "set z \<subseteq> {CHR ''/''}"
      unfolding z_def by (auto dest: set_takeWhileD)
    ultimately show ?thesis using p nt by (intro exI[of _ z]) simp
  qed
qed

lemma control_copy_path_not_base:
  assumes "path_split ctrl_file = (ctrl_folder, ctrl_fname)"
  shows "control_copy_path ctrl_folder ctrl_fname job_prefix idii \<noteq> ctrl_file"
proof
  assume eq: "control_copy_path ctrl_folder ctrl_fname job_prefix idii = ctrl_file"
  from path_split_decomp[OF assms] obtain z where
    p: "ctrl_file = ctrl_folder @ z @ ctrl_fname" and z: "set z \<subseteq> {CHR ''/''}"
    and nt: "CHR ''/'' \<notin> set ctrl_fname"
    by blast
  define b where "b = ctrl_fname @ ''_'' @ job_prefix @ ''_'' @ idii"
  have hb1: "b \<noteq> []" by (simp add: b_def)
  have hb2: "hd b \<noteq> CHR ''/''"
  proof (cases ctrl_fname)
    case Nil
    then show ?thesis by (simp add: b_def)
  next
    case (Cons c cs)
    then show ?thesis using nt by (auto simp: b_def)
  qed
  note hb = hb1 hb2
  have dwb: "dropWhile (\<lambda>c. c = CHR ''/'') b = b" using hb by (cases b) auto
  have dwt: "dropWhile (\<lambda>c. c = CHR ''/'') ctrl_fname = ctrl_fname"
    using nt by (cases ctrl_fname) auto
  have "\<exists>s. path_join ctrl_folder b = ctrl_folder @ s @ b \<and> set s \<subseteq> {CHR ''/''}"
  proof (cases "ctrl_folder = [] \<or> last ctrl_folder = CHR ''/''")
    case True
    then show ?thesis using hb by (intro exI[of _ "[]"]) (simp add: path_join_def)
  next
    case False
    then show ?thesis using hb by (intro exI[of _ "''/''"]) (simp add: path_join_def)
  qed
  then obtain s where s: "path_join ctrl_folder b = ctrl_folder @ s @ b" "set s \<subseteq> {CHR ''/''}"
    by blast
  have "ctrl_folder @ s @ b = ctrl_folder @ z @ ctrl_fname"
    using eq s(1) p by (simp add: control_copy_path_def b_def)
  then have "s @ b = z @ ctrl_fname" by simp
  then have "dropWhile (\<lambda>c. c = CHR ''/'') (s @ b) = dropWhile (\<lambda>c. c = CHR ''/'') (z @ ctrl_fname)"
    by simp
  moreover have "dropWhile (\<lambda>c. c = CHR ''/'') (s @ b) = b"
    using s(2) dwb by (subst dropWhile_append2) auto
  moreover have "dropWhile (\<lambda>c. c = CHR ''/'') (z @ ctrl_fname) = ctrl_fname"
    using z dwt by (subst dropWhile_append2) auto
  ultimately have "b = ctrl_fname" by simp
  then show False by (simp add: b_def)
qed

section \<open>Properties of the job list\<close>

lemma foldl_print: "foldl (\<lambda>w s. print s w) w out = w\<lparr>stdout := stdout w @ out\<rparr>"
  by (induction out arbitrary: w) (simp_all add: print_def)

lemma control_file_for_Inr:
  assumes "control_file_for cc ctrl_file folder fname ctrl_str prefix idii t1 t2 w = (Inr c, w1)"
  shows "c = (if cc then control_copy_path folder fname prefix idii else ctrl_file)"
    and "fs w1 = (if cc then (fs w)(c \<mapsto> File (snd (replaceControlDates ctrl_str t1 t2))) else fs w)"
    and "launched w1 = launched w" and "kills w1 = kills w"
    and "unwritable w1 = unwritable w" and "cwd w1 = cwd w"
    and "set (stdout w) \<subseteq> set (stdout w1)"
    and "written w1 = written w @ (if cc then [(c, snd (replaceControlDates ctrl_str t1 t2))] else [])"
  using assms
  by (auto simp: control_file_for_def Let_def case_prod_beta foldl_print open_w_def write_file_def
           split: if_splits sum.splits)

lemma isSkip_fs: "fs w1 = fs w \<Longrightarrow> isSkip w1 = isSkip w"
  by (rule ext) (simp add: isSkip_def path_exists_def)

lemma isSkip_control:
  "fs w1 = (fs w)(control_copy_path folder fname prefix (job_id n i) \<mapsto> x) \<Longrightarrow> isSkip w1 = isSkip w"
  by (intro ext)
     (simp add: isSkip_def path_exists_def Let_def control_copy_path_not_marker[symmetric])


lemma loop_skip_step:
  assumes "isSkip w (job_outdir outputdir prefix n i (t1, t2))"
  shows "prepareJobList_loop exe ctrl_file folder fname ctrl_str outputdir tout rt prefix cc n i
           ((t1, t2) # rest) jl w
         = prepareJobList_loop exe ctrl_file folder fname ctrl_str outputdir tout rt prefix cc n
             (Suc i) rest jl (print (skip_message n i (t1, t2)) w)"
  using assms by (simp add: Let_def job_outdir_def skip_message_def)

lemma loop_add_step:
  assumes "\<not> isSkip w (job_outdir outputdir prefix n i (t1, t2))"
  shows "prepareJobList_loop exe ctrl_file folder fname ctrl_str outputdir tout rt prefix cc n i
           ((t1, t2) # rest) jl w
         = (case control_file_for cc ctrl_file folder fname ctrl_str prefix (job_id n i) t1 t2
                  (print (''# <prepareJobList>: Add job #'' @ job_id n i @ '': '' @ t1 @ ''-'' @ t2) w) of
              (Inl e, w1) \<Rightarrow> (Inl e, w1)
            | (Inr c, w1) \<Rightarrow>
                prepareJobList_loop exe ctrl_file folder fname ctrl_str outputdir tout rt prefix
                  cc n (Suc i) rest (jl @ [job_spec exe outputdir tout rt prefix n i (t1, t2) c]) w1)"
  using assms by (simp add: Let_def job_outdir_def)

lemma loop_add_step_Inr:
  assumes "\<not> isSkip w (job_outdir outputdir prefix n i (t1, t2))"
      and "prepareJobList_loop exe ctrl_file folder fname ctrl_str outputdir tout rt prefix cc n i
             ((t1, t2) # rest) jl w = (Inr jl', w')"
  shows "\<exists>w1. prepareJobList_loop exe ctrl_file folder fname ctrl_str outputdir tout rt prefix
                  cc n (Suc i) rest
                  (jl @ [job_spec exe outputdir tout rt prefix n i (t1, t2)
                           (job_control cc ctrl_file folder fname prefix n i)]) w1 = (Inr jl', w')
              \<and> fs w1 = (if cc then (fs w)(control_copy_path folder fname prefix (job_id n i)
                                            \<mapsto> File (snd (replaceControlDates ctrl_str t1 t2)))
                         else fs w)
              \<and> launched w1 = launched w \<and> kills w1 = kills w
              \<and> unwritable w1 = unwritable w \<and> cwd w1 = cwd w
              \<and> set (stdout w) \<subseteq> set (stdout w1)"
proof -
  define w0 where
    "w0 = print (''# <prepareJobList>: Add job #'' @ job_id n i @ '': '' @ t1 @ ''-'' @ t2) w"
  obtain r w1 where cf:
    "control_file_for cc ctrl_file folder fname ctrl_str prefix (job_id n i) t1 t2 w0 = (r, w1)"
    by (cases "control_file_for cc ctrl_file folder fname ctrl_str prefix (job_id n i) t1 t2 w0")
  note step = loop_add_step[OF assms(1), of exe ctrl_file folder fname ctrl_str tout rt cc rest jl,
      unfolded w0_def[symmetric] cf]
  show ?thesis
  proof (cases r)
    case (Inl e)
    then show ?thesis using step assms(2) by simp
  next
    case (Inr c)
    note f = control_file_for_Inr[OF cf[unfolded Inr]]
    have c: "c = job_control cc ctrl_file folder fname prefix n i"
      using f(1) by (simp add: job_control_def)
    have w0: "fs w0 = fs w" "launched w0 = launched w" "kills w0 = kills w"
      "unwritable w0 = unwritable w" "cwd w0 = cwd w" "set (stdout w) \<subseteq> set (stdout w0)"
      by (auto simp: w0_def print_def)
    have "prepareJobList_loop exe ctrl_file folder fname ctrl_str outputdir tout rt prefix
                  cc n (Suc i) rest
                  (jl @ [job_spec exe outputdir tout rt prefix n i (t1, t2)
                           (job_control cc ctrl_file folder fname prefix n i)]) w1 = (Inr jl', w')"
      using step assms(2) Inr c by simp
    moreover have "fs w1 = (if cc then (fs w)(control_copy_path folder fname prefix (job_id n i)
                                            \<mapsto> File (snd (replaceControlDates ctrl_str t1 t2)))
                         else fs w)"
      using f(1,2) w0(1) by simp
    moreover have "set (stdout w) \<subseteq> set (stdout w1)" using f(7) w0(6) by blast
    ultimately show ?thesis using f(3,4,5,6) w0 by (intro exI[of _ w1]) simp
  qed
qed

lemma prepareJobList_loop_inv:
  assumes "prepareJobList_loop exe ctrl_file folder fname ctrl_str outputdir tout rt prefix cc n i
             ds jl w = (Inr jl', w')"
  shows "jl' = jl @ map (\<lambda>(k, d). job_spec exe outputdir tout rt prefix n k d
                                    (job_control cc ctrl_file folder fname prefix n k))
                      (filter (\<lambda>(k, d). \<not> isSkip w (job_outdir outputdir prefix n k d))
                              (enumerate i ds))
         \<and> (\<forall>p. (\<forall>k\<ge>i. p \<noteq> control_copy_path folder fname prefix (job_id n k))
                 \<longrightarrow> fs w' p = fs w p)
         \<and> (\<not> cc \<longrightarrow> fs w' = fs w)
         \<and> set (stdout w) \<subseteq> set (stdout w')
         \<and> launched w' = launched w \<and> kills w' = kills w
         \<and> unwritable w' = unwritable w \<and> cwd w' = cwd w"
  using assms
proof (induction ds arbitrary: i jl w)
  case Nil
  then show ?case by simp
next
  case (Cons d rest)
  obtain t1 t2 where d: "d = (t1, t2)" by (cases d)
  show ?case
  proof (cases "isSkip w (job_outdir outputdir prefix n i (t1, t2))")
    case True
    define w1 where "w1 = print (skip_message n i (t1, t2)) w"
    have run: "prepareJobList_loop exe ctrl_file folder fname ctrl_str outputdir tout rt prefix
                 cc n (Suc i) rest jl w1 = (Inr jl', w')"
      using Cons.prems loop_skip_step[OF True] by (simp add: d w1_def)
    note IH = Cons.IH[OF run]
    have w1: "fs w1 = fs w" "launched w1 = launched w" "kills w1 = kills w"
      "unwritable w1 = unwritable w" "cwd w1 = cwd w" "set (stdout w) \<subseteq> set (stdout w1)"
      by (auto simp: w1_def print_def)
    have sk: "isSkip w1 = isSkip w" by (rule isSkip_fs[OF w1(1)])
    show ?thesis
    proof (intro conjI allI impI)
      show "jl' = jl @ map (\<lambda>(k, d). job_spec exe outputdir tout rt prefix n k d
                                    (job_control cc ctrl_file folder fname prefix n k))
                      (filter (\<lambda>(k, d). \<not> isSkip w (job_outdir outputdir prefix n k d))
                              (enumerate i (d # rest)))"
        using IH[THEN conjunct1] True unfolding sk by (simp add: d)
    next
      fix p assume "\<forall>k\<ge>i. p \<noteq> control_copy_path folder fname prefix (job_id n k)"
      then have "\<forall>k\<ge>Suc i. p \<noteq> control_copy_path folder fname prefix (job_id n k)" by simp
      then have "fs w' p = fs w1 p" using IH by blast
      then show "fs w' p = fs w p" using w1(1) by simp
    next
      assume "\<not> cc"
      then show "fs w' = fs w" using IH w1(1) by simp
    next
      show "set (stdout w) \<subseteq> set (stdout w')" using IH w1(6) by blast
    next
      show "launched w' = launched w" using IH w1(2) by simp
    next
      show "kills w' = kills w" using IH w1(3) by simp
    next
      show "unwritable w' = unwritable w" using IH w1(4) by simp
    next
      show "cwd w' = cwd w" using IH w1(5) by simp
    qed
  next
    case False
    from loop_add_step_Inr[OF False Cons.prems[unfolded d]]
    obtain w1 where run: "prepareJobList_loop exe ctrl_file folder fname ctrl_str outputdir tout rt
                  prefix cc n (Suc i) rest
                  (jl @ [job_spec exe outputdir tout rt prefix n i (t1, t2)
                           (job_control cc ctrl_file folder fname prefix n i)]) w1 = (Inr jl', w')"
      and fsw1: "fs w1 = (if cc then (fs w)(control_copy_path folder fname prefix (job_id n i)
                                            \<mapsto> File (snd (replaceControlDates ctrl_str t1 t2)))
                         else fs w)"
      and w1: "launched w1 = launched w" "kills w1 = kills w"
              "unwritable w1 = unwritable w" "cwd w1 = cwd w" "set (stdout w) \<subseteq> set (stdout w1)"
      by blast
    note IH = Cons.IH[OF run]
    have sk: "isSkip w1 = isSkip w"
    proof (cases cc)
      case True
      then have "fs w1 = (fs w)(control_copy_path folder fname prefix (job_id n i)
                                  \<mapsto> File (snd (replaceControlDates ctrl_str t1 t2)))"
        using fsw1 by simp
      then show ?thesis by (rule isSkip_control)
    next
      case False
      then have "fs w1 = fs w" using fsw1 by simp
      then show ?thesis by (rule isSkip_fs)
    qed
    show ?thesis
    proof (intro conjI allI impI)
      show "jl' = jl @ map (\<lambda>(k, d). job_spec exe outputdir tout rt prefix n k d
                                    (job_control cc ctrl_file folder fname prefix n k))
                      (filter (\<lambda>(k, d). \<not> isSkip w (job_outdir outputdir prefix n k d))
                              (enumerate i (d # rest)))"
        using IH[THEN conjunct1] False unfolding sk by (simp add: d)
    next
      fix p assume a: "\<forall>k\<ge>i. p \<noteq> control_copy_path folder fname prefix (job_id n k)"
      then have "\<forall>k\<ge>Suc i. p \<noteq> control_copy_path folder fname prefix (job_id n k)" by simp
      then have "fs w' p = fs w1 p" using IH by blast
      moreover have "p \<noteq> control_copy_path folder fname prefix (job_id n i)" using a by simp
      ultimately show "fs w' p = fs w p" using fsw1 by simp
    next
      assume "\<not> cc"
      then show "fs w' = fs w" using IH fsw1 by simp
    next
      show "set (stdout w) \<subseteq> set (stdout w')" using IH w1(5) by blast
    next
      show "launched w' = launched w" using IH w1(1) by simp
    next
      show "kills w' = kills w" using IH w1(2) by simp
    next
      show "unwritable w' = unwritable w" using IH w1(3) by simp
    next
      show "cwd w' = cwd w" using IH w1(4) by simp
    qed
  qed
qed

lemma enumerate_ge: "(k, d) \<in> set (enumerate i ds) \<Longrightarrow> i \<le> k"
  by (simp add: in_set_enumerate_eq)

lemma prepareJobList_loop_content:
  assumes "prepareJobList_loop exe ctrl_file folder fname ctrl_str outputdir tout rt prefix True n i
             ds jl w = (Inr jl', w')"
      and "(k, d) \<in> set (enumerate i ds)"
      and "\<not> isSkip w (job_outdir outputdir prefix n k d)"
  shows "fs w' (control_copy_path folder fname prefix (job_id n k))
         = Some (File (snd (replaceControlDates ctrl_str (fst d) (snd d))))"
  using assms
proof (induction ds arbitrary: i jl w)
  case Nil
  then show ?case by simp
next
  case (Cons d0 rest)
  obtain t1 t2 where d0: "d0 = (t1, t2)" by (cases d0)
  from Cons.prems(2) have mem: "(k, d) = (i, (t1, t2)) \<or> (k, d) \<in> set (enumerate (Suc i) rest)"
    by (simp add: d0)
  show ?case
  proof (cases "isSkip w (job_outdir outputdir prefix n i (t1, t2))")
    case True
    define w1 where "w1 = print (skip_message n i (t1, t2)) w"
    have run: "prepareJobList_loop exe ctrl_file folder fname ctrl_str outputdir tout rt prefix
                 True n (Suc i) rest jl w1 = (Inr jl', w')"
      using Cons.prems(1) loop_skip_step[OF True] by (simp add: d0 w1_def)
    have "fs w1 = fs w" by (simp add: w1_def print_def)
    then have sk: "isSkip w1 = isSkip w" by (rule isSkip_fs)
    have "(k, d) \<in> set (enumerate (Suc i) rest)" using mem True Cons.prems(3) by auto
    moreover have "\<not> isSkip w1 (job_outdir outputdir prefix n k d)"
      using Cons.prems(3) unfolding sk .
    ultimately show ?thesis using Cons.IH[OF run] by blast
  next
    case False
    from loop_add_step_Inr[OF False Cons.prems(1)[unfolded d0]]
    obtain w1 where run: "prepareJobList_loop exe ctrl_file folder fname ctrl_str outputdir tout rt
                  prefix True n (Suc i) rest
                  (jl @ [job_spec exe outputdir tout rt prefix n i (t1, t2)
                           (job_control True ctrl_file folder fname prefix n i)]) w1 = (Inr jl', w')"
      and fsw1: "fs w1 = (fs w)(control_copy_path folder fname prefix (job_id n i)
                                  \<mapsto> File (snd (replaceControlDates ctrl_str t1 t2)))"
      by auto
    have sk: "isSkip w1 = isSkip w" using fsw1 by (rule isSkip_control)
    from mem show ?thesis
    proof
      assume "(k, d) = (i, (t1, t2))"
      then have kd: "k = i" "d = (t1, t2)" by simp_all
      have "\<forall>k'\<ge>Suc i. control_copy_path folder fname prefix (job_id n i)
                          \<noteq> control_copy_path folder fname prefix (job_id n k')"
        using control_copy_path_inj by fastforce
      then have "fs w' (control_copy_path folder fname prefix (job_id n i))
                 = fs w1 (control_copy_path folder fname prefix (job_id n i))"
        using prepareJobList_loop_inv[OF run] by blast
      then show ?thesis using fsw1 kd by simp
    next
      assume m: "(k, d) \<in> set (enumerate (Suc i) rest)"
      have "\<not> isSkip w1 (job_outdir outputdir prefix n k d)"
        using Cons.prems(3) unfolding sk .
      then show ?thesis using Cons.IH[OF run m] by blast
    qed
  qed
qed

lemma prepareJobList_loop_skip_message:
  assumes "prepareJobList_loop exe ctrl_file folder fname ctrl_str outputdir tout rt prefix cc n i
             ds jl w = (Inr jl', w')"
      and "(k, d) \<in> set (enumerate i ds)"
      and "isSkip w (job_outdir outputdir prefix n k d)"
  shows "skip_message n k d \<in> set (stdout w')"
  using assms
proof (induction ds arbitrary: i jl w)
  case Nil
  then show ?case by simp
next
  case (Cons d0 rest)
  obtain t1 t2 where d0: "d0 = (t1, t2)" by (cases d0)
  from Cons.prems(2) have mem: "(k, d) = (i, (t1, t2)) \<or> (k, d) \<in> set (enumerate (Suc i) rest)"
    by (simp add: d0)
  show ?case
  proof (cases "isSkip w (job_outdir outputdir prefix n i (t1, t2))")
    case True
    define w1 where "w1 = print (skip_message n i (t1, t2)) w"
    have run: "prepareJobList_loop exe ctrl_file folder fname ctrl_str outputdir tout rt prefix
                 cc n (Suc i) rest jl w1 = (Inr jl', w')"
      using Cons.prems(1) loop_skip_step[OF True] by (simp add: d0 w1_def)
    have "fs w1 = fs w" by (simp add: w1_def print_def)
    then have sk: "isSkip w1 = isSkip w" by (rule isSkip_fs)
    from mem show ?thesis
    proof
      assume "(k, d) = (i, (t1, t2))"
      then have "skip_message n k d \<in> set (stdout w1)" by (simp add: w1_def print_def)
      then show ?thesis using prepareJobList_loop_inv[OF run] by blast
    next
      assume m: "(k, d) \<in> set (enumerate (Suc i) rest)"
      have "isSkip w1 (job_outdir outputdir prefix n k d)" using Cons.prems(3) unfolding sk .
      then show ?thesis using Cons.IH[OF run m] by blast
    qed
  next
    case False
    from loop_add_step_Inr[OF False Cons.prems(1)[unfolded d0]]
    obtain w1 where run: "prepareJobList_loop exe ctrl_file folder fname ctrl_str outputdir tout rt
                  prefix cc n (Suc i) rest
                  (jl @ [job_spec exe outputdir tout rt prefix n i (t1, t2)
                           (job_control cc ctrl_file folder fname prefix n i)]) w1 = (Inr jl', w')"
      and fsw1: "fs w1 = (if cc then (fs w)(control_copy_path folder fname prefix (job_id n i)
                                            \<mapsto> File (snd (replaceControlDates ctrl_str t1 t2)))
                         else fs w)"
      by auto
    have sk: "isSkip w1 = isSkip w"
    proof (cases cc)
      case True
      then have "fs w1 = (fs w)(control_copy_path folder fname prefix (job_id n i)
                                  \<mapsto> File (snd (replaceControlDates ctrl_str t1 t2)))"
        using fsw1 by simp
      then show ?thesis by (rule isSkip_control)
    next
      case False
      then have "fs w1 = fs w" using fsw1 by simp
      then show ?thesis by (rule isSkip_fs)
    qed
    have "(k, d) \<in> set (enumerate (Suc i) rest)" using mem False Cons.prems(3) by auto
    moreover have "isSkip w1 (job_outdir outputdir prefix n k d)"
      using Cons.prems(3) unfolding sk .
    ultimately show ?thesis using Cons.IH[OF run] by blast
  qed
qed

lemma prepareJobList_loop_all_done:
  assumes "\<forall>(k, d)\<in>set (enumerate i ds). isSkip w (job_outdir outputdir prefix n k d)"
  shows "prepareJobList_loop exe ctrl_file folder fname ctrl_str outputdir tout rt prefix cc n i
           ds jl w
         = (Inr jl, w\<lparr>stdout := stdout w @ map (\<lambda>(k, d). skip_message n k d) (enumerate i ds)\<rparr>)"
  using assms
proof (induction ds arbitrary: i w)
  case Nil
  show ?case by simp
next
  case (Cons d0 rest)
  obtain t1 t2 where d0: "d0 = (t1, t2)" by (cases d0)
  have sk0: "isSkip w (job_outdir outputdir prefix n i (t1, t2))"
    using Cons.prems by (simp add: d0)
  define w1 where "w1 = print (skip_message n i (t1, t2)) w"
  have "fs w1 = fs w" by (simp add: w1_def print_def)
  then have sk: "isSkip w1 = isSkip w" by (rule isSkip_fs)
  have "\<forall>(k, d)\<in>set (enumerate (Suc i) rest). isSkip w1 (job_outdir outputdir prefix n k d)"
    using Cons.prems unfolding sk by simp
  from Cons.IH[OF this] loop_skip_step[OF sk0]
  show ?case by (simp add: d0 w1_def print_def)
qed

lemma prepareJobList_Inr:
  assumes "prepareJobList exe ctrl_file dl outputdir tout rt prefix cc verbose w = (Inr jl, w')"
  shows "\<exists>ctrl_str w0. read_file w ctrl_file = Inr ctrl_str
           \<and> fs w0 = fs w \<and> launched w0 = launched w \<and> kills w0 = kills w
           \<and> set (stdout w) \<subseteq> set (stdout w0)
           \<and> prepareJobList_loop exe ctrl_file (fst (path_split ctrl_file))
                (snd (path_split ctrl_file)) ctrl_str outputdir tout rt prefix cc (length dl) 0 dl
                [] w0 = (Inr jl, w')"
proof (cases "read_file w ctrl_file")
  case (Inl e)
  then show ?thesis using assms by (simp add: prepareJobList_def case_prod_beta)
next
  case (Inr ctrl_str)
  define w0 where "w0 = (if verbose
                       then print ctrl_str
                              (print ''\<newline># <prepareJobList>: Default CONTROL file:'' w)
                       else w)"
  have "prepareJobList_loop exe ctrl_file (fst (path_split ctrl_file))
                (snd (path_split ctrl_file)) ctrl_str outputdir tout rt prefix cc (length dl) 0 dl
                [] w0 = (Inr jl, w')"
    using assms Inr by (simp add: prepareJobList_def case_prod_beta Let_def w0_def)
  moreover have "fs w0 = fs w" "launched w0 = launched w" "kills w0 = kills w"
    "set (stdout w) \<subseteq> set (stdout w0)"
    by (auto simp: w0_def print_def)
  ultimately show ?thesis using Inr by blast
qed

lemma job_spec_fields:
  "job_dates_of (job_spec exe outputdir tout rt prefix n i d c) = (job_id n i, fst d, snd d)"
  "args_of (job_spec exe outputdir tout rt prefix n i d c)
   = [''python'', ''-u'', exe, ''--controlfile'', c,
      ''--inputdir'', job_outputdir outputdir prefix (job_id n i) (fst d) (snd d) @ ''_tmp'',
      ''--outputdir'', job_outputdir outputdir prefix (job_id n i) (fst d) (snd d) @ ''_out'']"
  "logfile_of (job_spec exe outputdir tout rt prefix n i d c) = prefix @ ''_'' @ job_id n i @ ''.txt''"
  "timeout_of (job_spec exe outputdir tout rt prefix n i d c) = tout"
  "retry_of (job_spec exe outputdir tout rt prefix n i d c) = rt"
  by (simp_all add: job_spec_def Let_def case_prod_beta)

lemma prepareJobList_jobs:
  assumes "prepareJobList exe ctrl_file dl outputdir tout rt prefix cc verbose w = (Inr jl, w')"
  shows "jl = map (\<lambda>(i, d). job_spec exe outputdir tout rt prefix (length dl) i d
                              (job_control cc ctrl_file (fst (path_split ctrl_file))
                                 (snd (path_split ctrl_file)) prefix (length dl) i))
                  (filter (\<lambda>(i, d). \<not> isSkip w (job_outdir outputdir prefix (length dl) i d))
                          (enumerate 0 dl))"
proof -
  from prepareJobList_Inr[OF assms] obtain ctrl_str w0 where
    fs0: "fs w0 = fs w"
    and run: "prepareJobList_loop exe ctrl_file (fst (path_split ctrl_file))
                (snd (path_split ctrl_file)) ctrl_str outputdir tout rt prefix cc (length dl) 0 dl
                [] w0 = (Inr jl, w')"
    by blast
  have sk: "isSkip w0 = isSkip w" using fs0 by (rule isSkip_fs)
  show ?thesis using prepareJobList_loop_inv[OF run, THEN conjunct1] unfolding sk by simp
qed

lemma job_in_list:
  assumes "prepareJobList exe ctrl_file dl outputdir tout rt prefix cc verbose w = (Inr jl, w')"
      and "j \<in> set jl"
  shows "\<exists>i d. (i, d) \<in> set (enumerate 0 dl)
           \<and> \<not> isSkip w (job_outdir outputdir prefix (length dl) i d)
           \<and> j = job_spec exe outputdir tout rt prefix (length dl) i d
                   (job_control cc ctrl_file (fst (path_split ctrl_file))
                      (snd (path_split ctrl_file)) prefix (length dl) i)"
  using assms(2) unfolding prepareJobList_jobs[OF assms(1)] by auto

section \<open>The job list: completed jobs, CONTROL file copies, job ids and the dry run\<close>

lemma args_of_job_spec_4:
  "args_of (job_spec exe outputdir tout rt prefix n i d c) ! 4 = c"
  by (simp add: job_spec_fields)

lemma enumerate0_iff: "(k, d) \<in> set (enumerate 0 dl) \<longleftrightarrow> k < length dl \<and> d = dl ! k"
  by (auto simp: in_set_enumerate_eq)

text \<open>
  C8.  Take a call of \<^verbatim>\<open>prepareJobList\<close> with \<^verbatim>\<open>copy_control\<close> true that returns a job
  list.  The CONTROL file paths of its jobs (the argument after \<^verbatim>\<open>--controlfile\<close>, at
  index 4 of \<^verbatim>\<open>args\<close>) are pairwise distinct, and none is the base CONTROL file.  The
  base file was read, once, before the loop; in the world after the call the CONTROL file
  of each job holds that text with the two dates replaced by the dates of the job, and
  this stays so when the base file is then overwritten or removed (\<open>x\<close> is the new
  state of the base path).
\<close>

theorem prepareJobList_control_copies:
  assumes "prepareJobList exe_file ctrl_file date_list outputdir time_out time_out_retry job_prefix
             True verbose w = (Inr job_list, w')"
  shows "distinct (map (\<lambda>j. args_of j ! 4) job_list)
         \<and> (\<forall>j\<in>set job_list. args_of j ! 4 \<noteq> ctrl_file)
         \<and> (\<exists>ctrl_str. read_file w ctrl_file = Inr ctrl_str
              \<and> (\<forall>j\<in>set job_list. \<forall>x.
                    ((fs w')(ctrl_file := x)) (args_of j ! 4)
                    = Some (File (snd (replaceControlDates ctrl_str
                                         (fst (snd (job_dates_of j)))
                                         (snd (snd (job_dates_of j))))))))"
proof -
  define folder where "folder = fst (path_split ctrl_file)"
  define fname where "fname = snd (path_split ctrl_file)"
  define n where "n = length date_list"
  have ps: "path_split ctrl_file = (folder, fname)" by (simp add: folder_def fname_def)
  define g where "g = (\<lambda>(i :: nat, d :: string \<times> string).
                         control_copy_path folder fname job_prefix (job_id n i))"
  define xs where "xs = filter (\<lambda>(i, d). \<not> isSkip w (job_outdir outputdir job_prefix n i d))
                               (enumerate 0 date_list)"
  have jl: "job_list = map (\<lambda>(i, d). job_spec exe_file outputdir time_out time_out_retry
                                       job_prefix n i d
                                       (job_control True ctrl_file folder fname job_prefix n i)) xs"
    using prepareJobList_jobs[OF assms] by (simp add: folder_def fname_def n_def xs_def)
  have m: "map (\<lambda>j. args_of j ! 4) job_list = map g xs"
    unfolding jl by (simp add: g_def args_of_job_spec_4 job_control_def case_prod_beta)
  have dx: "distinct xs" unfolding xs_def by (simp add: distinct_enumerate)
  have inj: "inj_on g (set xs)"
  proof (rule inj_onI)
    fix a b assume a: "a \<in> set xs" and b: "b \<in> set xs" and e: "g a = g b"
    obtain i d where a': "a = (i, d)" by (cases a)
    obtain i2 d2 where b': "b = (i2, d2)" by (cases b)
    have "i = i2" using e unfolding a' b' g_def by (simp add: control_copy_path_inj)
    moreover have "d = date_list ! i" "d2 = date_list ! i2"
      using a b unfolding a' b' xs_def by (simp_all add: in_set_enumerate_eq)
    ultimately show "a = b" by (simp add: a' b')
  qed
  have c1: "distinct (map (\<lambda>j. args_of j ! 4) job_list)"
    unfolding m using dx inj by (simp add: distinct_map)
  from prepareJobList_Inr[OF assms] obtain ctrl_str w0 where
    rd: "read_file w ctrl_file = Inr ctrl_str" and fs0: "fs w0 = fs w"
    and run: "prepareJobList_loop exe_file ctrl_file folder fname ctrl_str outputdir time_out
                time_out_retry job_prefix True n 0 date_list [] w0 = (Inr job_list, w')"
    unfolding folder_def fname_def n_def by blast
  have sk: "isSkip w0 = isSkip w" using fs0 by (rule isSkip_fs)
  have each: "args_of j ! 4 \<noteq> ctrl_file
              \<and> fs w' (args_of j ! 4)
                = Some (File (snd (replaceControlDates ctrl_str (fst (snd (job_dates_of j)))
                                     (snd (snd (job_dates_of j))))))"
    if j: "j \<in> set job_list" for j
  proof -
    from job_in_list[OF assms j] obtain i d where
      mem: "(i, d) \<in> set (enumerate 0 date_list)"
      and ns: "\<not> isSkip w (job_outdir outputdir job_prefix n i d)"
      and jd: "j = job_spec exe_file outputdir time_out time_out_retry job_prefix n i d
                     (job_control True ctrl_file folder fname job_prefix n i)"
      unfolding folder_def fname_def n_def by blast
    have p: "args_of j ! 4 = control_copy_path folder fname job_prefix (job_id n i)"
      unfolding jd by (simp add: args_of_job_spec_4 job_control_def)
    have dts: "fst (snd (job_dates_of j)) = fst d" "snd (snd (job_dates_of j)) = snd d"
      unfolding jd by (simp_all add: job_spec_fields)
    have ns0: "\<not> isSkip w0 (job_outdir outputdir job_prefix n i d)" using ns unfolding sk .
    have "fs w' (control_copy_path folder fname job_prefix (job_id n i))
          = Some (File (snd (replaceControlDates ctrl_str (fst d) (snd d))))"
      by (rule prepareJobList_loop_content[OF run mem ns0])
    moreover have "control_copy_path folder fname job_prefix (job_id n i) \<noteq> ctrl_file"
      by (rule control_copy_path_not_base[OF ps])
    ultimately show ?thesis unfolding p dts by simp
  qed
  have c2: "\<forall>j\<in>set job_list. args_of j ! 4 \<noteq> ctrl_file" using each by blast
  have c3: "\<forall>j\<in>set job_list. \<forall>x.
                    ((fs w')(ctrl_file := x)) (args_of j ! 4)
                    = Some (File (snd (replaceControlDates ctrl_str
                                         (fst (snd (job_dates_of j)))
                                         (snd (snd (job_dates_of j))))))"
    using each by simp
  show ?thesis using c1 c2 rd c3 by blast
qed

lemma printJobSummary_frame:
  assumes "printJobSummary sd ed dpj [] nw w = (r, w2)"
  shows "launched w2 = launched w \<and> kills w2 = kills w \<and> fs w2 = fs w \<and> written w2 = written w"
  using assms
  by (auto simp: printJobSummary_def Let_def print_def split: sum.splits)

lemma pool_map_Nil: "pool_map n_workers proc [] w = Some (Inr [], w)"
  by (simp add: pool_map_def chunksize_def get_tasks.simps)

lemma main_all_done:
  assumes bd: "breakDownDates sd ed dpj = Some (Inr dl)"
      and exe: "checkExeFile w flex = Inr exe"
      and ctl: "checkControlFile w flex cf = Inr (folder, ctrl_file)"
      and dn: "\<forall>i<length dl. isSkip w (job_outdir outputdir prefix (length dl) i (dl ! i))"
  shows "\<exists>r w2. main DRY proc flex cf sd ed dpj nw outputdir tout rt prefix cc dry w = Some (r, w2)
           \<and> launched w2 = launched w \<and> kills w2 = kills w \<and> fs w2 = fs w
           \<and> written w2 = written w"
proof (cases "read_file w ctrl_file")
  case (Inl e)
  then have "prepareJobList exe ctrl_file dl outputdir tout rt prefix cc True w = (Inl e, w)"
    by (simp add: prepareJobList_def case_prod_beta)
  then have "main DRY proc flex cf sd ed dpj nw outputdir tout rt prefix cc dry w = Some (Inl e, w)"
    using bd exe ctl by (simp add: main_def)
  then show ?thesis by simp
next
  case (Inr ctrl_str)
  define w0 where "w0 = print ctrl_str (print ''\<newline># <prepareJobList>: Default CONTROL file:'' w)"
  define w1 where "w1 = w0\<lparr>stdout := stdout w0 @ map (\<lambda>(k, d). skip_message (length dl) k d)
                                                      (enumerate 0 dl)\<rparr>"
  have fr0: "fs w0 = fs w" "launched w0 = launched w" "kills w0 = kills w" "written w0 = written w"
    by (simp_all add: w0_def print_def)
  have fr1: "fs w1 = fs w" "launched w1 = launched w" "kills w1 = kills w" "written w1 = written w"
    using fr0 by (simp_all add: w1_def)
  have sk: "isSkip w0 = isSkip w" using fr0(1) by (rule isSkip_fs)
  have dn0: "\<forall>(k, d)\<in>set (enumerate 0 dl). isSkip w0 (job_outdir outputdir prefix (length dl) k d)"
    using dn unfolding sk by (auto simp: in_set_enumerate_eq)
  have pj: "prepareJobList exe ctrl_file dl outputdir tout rt prefix cc True w = (Inr [], w1)"
    using Inr prepareJobList_loop_all_done[OF dn0]
    by (simp add: prepareJobList_def case_prod_beta w0_def w1_def)
  show ?thesis
  proof (cases DRY)
    case True
    obtain r w2 where s: "printJobSummary sd ed dpj [] nw w1 = (r, w2)"
      by (cases "printJobSummary sd ed dpj [] nw w1")
    have "main DRY proc flex cf sd ed dpj nw outputdir tout rt prefix cc dry w = Some (r, w2)"
      using bd exe ctl pj True s by (simp add: main_def)
    then show ?thesis using printJobSummary_frame[OF s] fr1 by simp
  next
    case False
    show ?thesis
    proof (cases "nw < 1")
      case True
      have "main DRY proc flex cf sd ed dpj nw outputdir tout rt prefix cc dry w
            = Some (Inl ValueError, w1)"
        using bd exe ctl pj False True by (simp add: main_def)
      then show ?thesis using fr1 by simp
    next
      case nw: False
      have "main DRY proc flex cf sd ed dpj nw outputdir tout rt prefix cc dry w
            = Some (Inr (), print (''\<newline># <serial_batch_job>: Results: '' @ str_int_list []) w1)"
        using bd exe ctl pj False nw by (simp add: main_def pool_map_Nil)
      then show ?thesis using fr1 by (simp add: print_def)
    qed
  qed
qed

text \<open>
  C2.  Take a call of \<^verbatim>\<open>prepareJobList\<close> that returns a job list.  For every position
  whose output folder holds the marker \<^verbatim>\<open>job_done\<close> when the call starts, the line
  \<^verbatim>\<open># <prepareJobList>: Skip job #id: t1-t2\<close> is printed and no job of the list has
  that id.  The call starts no process.  When every position has its marker, the list is
  empty, and \<^verbatim>\<open>main\<close> run on these intervals in that world returns (normally or with
  an exception) without having started or killed any process.
\<close>

theorem prepareJobList_skips_done_jobs:
  assumes "prepareJobList exe_file ctrl_file date_list outputdir time_out time_out_retry job_prefix
             copy_control verbose w = (Inr job_list, w')"
  shows "(\<forall>i<length date_list.
            isSkip w (job_outdir outputdir job_prefix (length date_list) i (date_list ! i))
            \<longrightarrow> skip_message (length date_list) i (date_list ! i) \<in> set (stdout w')
                \<and> (\<forall>j\<in>set job_list. fst (job_dates_of j) \<noteq> job_id (length date_list) i))
         \<and> launched w' = launched w
         \<and> ((\<forall>i<length date_list.
               isSkip w (job_outdir outputdir job_prefix (length date_list) i (date_list ! i)))
            \<longrightarrow> job_list = []
                \<and> (\<forall>DRY proc flex_extract_folder control_file start_date end_date days_per_job
                      n_workers dry ctrl_folder.
                      breakDownDates start_date end_date days_per_job = Some (Inr date_list)
                      \<and> checkExeFile w flex_extract_folder = Inr exe_file
                      \<and> checkControlFile w flex_extract_folder control_file
                          = Inr (ctrl_folder, ctrl_file)
                      \<longrightarrow> (\<exists>r w2. main DRY proc flex_extract_folder control_file start_date
                                     end_date days_per_job n_workers outputdir time_out
                                     time_out_retry job_prefix copy_control dry w = Some (r, w2)
                                   \<and> launched w2 = launched w \<and> kills w2 = kills w)))"
proof -
  define n where "n = length date_list"
  from prepareJobList_Inr[OF assms] obtain ctrl_str w0 where
    fs0: "fs w0 = fs w" and l0: "launched w0 = launched w"
    and run: "prepareJobList_loop exe_file ctrl_file (fst (path_split ctrl_file))
                (snd (path_split ctrl_file)) ctrl_str outputdir time_out
                time_out_retry job_prefix copy_control n 0 date_list [] w0 = (Inr job_list, w')"
    unfolding n_def by blast
  have sk: "isSkip w0 = isSkip w" using fs0 by (rule isSkip_fs)
  have a: "skip_message n i (date_list ! i) \<in> set (stdout w')
           \<and> (\<forall>j\<in>set job_list. fst (job_dates_of j) \<noteq> job_id n i)"
    if i: "i < length date_list"
      and s: "isSkip w (job_outdir outputdir job_prefix n i (date_list ! i))" for i
  proof
    have mem: "(i, date_list ! i) \<in> set (enumerate 0 date_list)"
      using i by (simp add: enumerate0_iff)
    have s0: "isSkip w0 (job_outdir outputdir job_prefix n i (date_list ! i))"
      using s unfolding sk .
    show "skip_message n i (date_list ! i) \<in> set (stdout w')"
      by (rule prepareJobList_loop_skip_message[OF run mem s0])
    show "\<forall>j\<in>set job_list. fst (job_dates_of j) \<noteq> job_id n i"
    proof
      fix j assume j: "j \<in> set job_list"
      from job_in_list[OF assms j] obtain k d where
        mem: "(k, d) \<in> set (enumerate 0 date_list)"
        and ns: "\<not> isSkip w (job_outdir outputdir job_prefix n k d)"
        and jd: "j = job_spec exe_file outputdir time_out time_out_retry job_prefix n k d
                       (job_control copy_control ctrl_file (fst (path_split ctrl_file))
                          (snd (path_split ctrl_file)) job_prefix n k)"
        unfolding n_def by blast
      have d: "d = date_list ! k" using mem by (simp add: enumerate0_iff)
      have "k \<noteq> i" using ns s unfolding d by auto
      then have "job_id n k \<noteq> job_id n i" using job_id_inj by blast
      then show "fst (job_dates_of j) \<noteq> job_id n i" unfolding jd by (simp add: job_spec_fields)
    qed
  qed
  have b: "launched w' = launched w" using prepareJobList_loop_inv[OF run] l0 by simp
  have c: "job_list = []"
    if dn: "\<forall>i<length date_list. isSkip w (job_outdir outputdir job_prefix n i (date_list ! i))"
  proof -
    have "filter (\<lambda>(i, d). \<not> isSkip w (job_outdir outputdir job_prefix n i d))
                 (enumerate 0 date_list) = []"
      using dn by (auto simp: filter_empty_conv enumerate0_iff)
    then show ?thesis using prepareJobList_jobs[OF assms] unfolding n_def by simp
  qed
  have d: "\<exists>r w2. main DRY proc flex cf sd ed dpj nw outputdir time_out time_out_retry job_prefix
                    copy_control dry w = Some (r, w2)
                 \<and> launched w2 = launched w \<and> kills w2 = kills w"
    if dn: "\<forall>i<length date_list. isSkip w (job_outdir outputdir job_prefix n i (date_list ! i))"
      and h: "breakDownDates sd ed dpj = Some (Inr date_list)
              \<and> checkExeFile w flex = Inr exe_file
              \<and> checkControlFile w flex cf = Inr (folder, ctrl_file)"
    for DRY proc flex cf sd ed dpj nw dry folder
  proof -
    from h have h1: "breakDownDates sd ed dpj = Some (Inr date_list)"
      and h2: "checkExeFile w flex = Inr exe_file"
      and h3: "checkControlFile w flex cf = Inr (folder, ctrl_file)" by simp_all
    from main_all_done[OF h1 h2 h3 dn[unfolded n_def]] show ?thesis by blast
  qed
  show ?thesis
    unfolding n_def[symmetric]
  proof (intro conjI allI impI)
    fix i assume "i < n" "isSkip w (job_outdir outputdir job_prefix n i (date_list ! i))"
    then show "skip_message n i (date_list ! i) \<in> set (stdout w')" using a by (simp add: n_def)
  next
    fix i assume "i < n" "isSkip w (job_outdir outputdir job_prefix n i (date_list ! i))"
    then show "\<forall>j\<in>set job_list. fst (job_dates_of j) \<noteq> job_id n i" using a by (simp add: n_def)
  next
    show "launched w' = launched w" by (rule b)
  next
    assume "\<forall>i<n. isSkip w (job_outdir outputdir job_prefix n i (date_list ! i))"
    then show "job_list = []" using c by (simp add: n_def)
  next
    fix DRY proc flex_extract_folder control_file start_date end_date days_per_job n_workers dry
      ctrl_folder
    assume dn: "\<forall>i<n. isSkip w (job_outdir outputdir job_prefix n i (date_list ! i))"
      and h: "breakDownDates start_date end_date days_per_job = Some (Inr date_list)
              \<and> checkExeFile w flex_extract_folder = Inr exe_file
              \<and> checkControlFile w flex_extract_folder control_file = Inr (ctrl_folder, ctrl_file)"
    have dn': "\<forall>i<length date_list. isSkip w (job_outdir outputdir job_prefix n i (date_list ! i))"
      using dn by (simp add: n_def)
    show "\<exists>r w2. main DRY proc flex_extract_folder control_file start_date end_date days_per_job
                   n_workers outputdir time_out time_out_retry job_prefix copy_control dry w
                 = Some (r, w2) \<and> launched w2 = launched w \<and> kills w2 = kills w"
      by (rule d[OF dn' h])
  qed
qed

lemma engine_prepare_partial:
  "fst (engine_prepare engine_world) = Inr [engine_job0, engine_job2]"
  by code_simp

lemma engine_prepare_fresh:
  "fst (engine_prepare fresh_world) = Inr [engine_job0, engine_job1, engine_job2]"
  by code_simp

lemma engine_prepare_done: "fst (engine_prepare done_world) = Inr []"
  by code_simp

lemma engine_isSkip_1:
  "isSkip engine_world (job_outdir ''/data'' ''EI'' (length engine_dates) 1 (engine_dates ! 1))"
  by code_simp

lemma done_isSkip:
  "isSkip done_world (job_outdir ''/data'' ''EI'' (length engine_dates) 0 (engine_dates ! 0))"
  "isSkip done_world (job_outdir ''/data'' ''EI'' (length engine_dates) 1 (engine_dates ! 1))"
  "isSkip done_world (job_outdir ''/data'' ''EI'' (length engine_dates) 2 (engine_dates ! 2))"
  by code_simp+

lemma done_checks:
  "checkExeFile done_world ''/fe'' = Inr ''/fe/Source/Python/submit.py''"
  "checkControlFile done_world ''/fe'' ''CONTROL_EI''
   = Inr (''/fe/Run/Control'', ''/fe/Run/Control/CONTROL_EI'')"
  by code_simp+

lemma fresh_checks:
  "checkExeFile fresh_world ''/fe'' = Inr ''/fe/Source/Python/submit.py''"
  "checkControlFile fresh_world ''/fe'' ''CONTROL_EI''
   = Inr (''/fe/Run/Control'', ''/fe/Run/Control/CONTROL_EI'')"
  by code_simp+

lemma fresh_prepare_verbose:
  "fst (prepareJobList ''/fe/Source/Python/submit.py'' ''/fe/Run/Control/CONTROL_EI''
          [(''20130203'', ''20130204''), (''20130205'', ''20130206''), (''20130207'', ''20130207'')]
          ''/data'' (Some 14400) 3 ''EI'' True True fresh_world)
   = Inr [engine_job0, engine_job1, engine_job2]"
  by code_simp

lemma engine_read:
  "read_file engine_world ''/fe/Run/Control/CONTROL_EI''
   = Inr ''START_DATE 20130101\<newline>FOO 1\<newline>''"
  by code_simp

lemma engine_control_0:
  "snd (replaceControlDates ''START_DATE 20130101\<newline>FOO 1\<newline>'' ''20130203'' ''20130204'')
   = ''END_DATE 20130204\<newline>START_DATE 20130203\<newline>FOO 1\<newline>''"
  by code_simp

lemma control_file_for_launched:
  "launched (snd (control_file_for cc ctrl_file folder fname ctrl_str prefix idii t1 t2 w))
   = launched w"
  by (auto simp: control_file_for_def Let_def case_prod_beta foldl_print open_w_def write_file_def
           split: if_splits sum.splits)

lemma prepareJobList_loop_launched:
  "launched (snd (prepareJobList_loop exe ctrl_file folder fname ctrl_str outputdir tout rt prefix
                    cc n i ds jl w)) = launched w"
proof (induction ds arbitrary: i jl w)
  case Nil
  show ?case by simp
next
  case (Cons d0 rest)
  obtain t1 t2 where d0: "d0 = (t1, t2)" by (cases d0)
  show ?case
  proof (cases "isSkip w (job_outdir outputdir prefix n i (t1, t2))")
    case True
    show ?thesis unfolding d0 loop_skip_step[OF True] Cons.IH by (simp add: print_def)
  next
    case False
    define w0 where
      "w0 = print (''# <prepareJobList>: Add job #'' @ job_id n i @ '': '' @ t1 @ ''-'' @ t2) w"
    obtain r w1 where c: "control_file_for cc ctrl_file folder fname ctrl_str prefix (job_id n i)
                            t1 t2 w0 = (r, w1)"
      by (cases "control_file_for cc ctrl_file folder fname ctrl_str prefix (job_id n i) t1 t2 w0")
    have l1: "launched w1 = launched w"
      using control_file_for_launched[of cc ctrl_file folder fname ctrl_str prefix "job_id n i"
              t1 t2 w0] c by (simp add: w0_def print_def)
    show ?thesis
      unfolding d0 loop_add_step[OF False] w0_def[symmetric] c
      by (cases r) (simp_all add: l1 Cons.IH)
  qed
qed

lemma prepareJobList_launched:
  "launched (snd (prepareJobList exe ctrl_file dl outputdir tout rt prefix cc verbose w))
   = launched w"
  by (cases "read_file w ctrl_file")
     (simp_all add: prepareJobList_def case_prod_beta prepareJobList_loop_launched print_def)

lemma printJobSummary_loop_launched:
  "launched (snd (printJobSummary_loop jl w)) = launched w"
proof (induction jl arbitrary: w)
  case Nil
  show ?case by simp
next
  case (Cons j rest)
  show ?case
    by (cases "job_dates_of j")
       (simp add: Let_def Cons.IH print_def split: sum.splits prod.splits)
qed

lemma printJobSummary_launched:
  "launched (snd (printJobSummary sd ed dpj jl nw w)) = launched w"
  by (simp add: printJobSummary_def Let_def printJobSummary_loop_launched print_def
           split: sum.splits)

lemma main_dry_unused:
  "main DRY proc flex cf sd ed dpj nw outputdir tout rt prefix cc dry w
   = main DRY proc flex cf sd ed dpj nw outputdir tout rt prefix cc dry' w"
  by (simp add: main_def)

lemma main_DRY_launches_nothing:
  assumes "breakDownDates sd ed dpj \<noteq> None"
  shows "map_option (launched \<circ> snd)
           (main True proc flex cf sd ed dpj nw outputdir tout rt prefix cc dry w)
         = Some (launched w)"
proof -
  from assms obtain b where b: "breakDownDates sd ed dpj = Some b" by blast
  show ?thesis
  proof (cases b)
    case (Inl e)
    then show ?thesis using b by (simp add: main_def)
  next
    case (Inr dl)
    show ?thesis
    proof (cases "checkExeFile w flex")
      case (Inl e)
      then show ?thesis using b Inr by (simp add: main_def)
    next
      case exe: (Inr exe_file)
      show ?thesis
      proof (cases "checkControlFile w flex cf")
        case (Inl e)
        then show ?thesis using b Inr exe by (simp add: main_def)
      next
        case ctl: (Inr p)
        obtain folder ctrl_file where p: "p = (folder, ctrl_file)" by (cases p)
        obtain r w1 where pj: "prepareJobList exe_file ctrl_file dl outputdir tout rt prefix cc
                                 True w = (r, w1)"
          by (cases "prepareJobList exe_file ctrl_file dl outputdir tout rt prefix cc True w")
        have l1: "launched w1 = launched w"
          using prepareJobList_launched[of exe_file ctrl_file dl outputdir tout rt prefix cc
                  True w] pj by simp
        show ?thesis
        proof (cases r)
          case (Inl e)
          then show ?thesis using b Inr exe ctl p pj l1 by (simp add: main_def)
        next
          case jl: (Inr job_list)
          have "main True proc flex cf sd ed dpj nw outputdir tout rt prefix cc dry w
                = Some (printJobSummary sd ed dpj job_list nw w1)"
            using b Inr exe ctl p pj jl by (simp add: main_def)
          then show ?thesis using printJobSummary_launched[of sd ed dpj job_list nw w1] l1
            by simp
        qed
      qed
    qed
  qed
qed

text \<open>
  C9 says that the dry-run flag of an invocation decides between printing the summary and
  running the jobs.  \<^verbatim>\<open>main\<close> tests the module's global \<^verbatim>\<open>DRY\<close>, not its parameter
  \<^verbatim>\<open>dry\<close> (\<open>main_dry_unused\<close>).  At this input the global is \<^verbatim>\<open>True\<close>, as in the
  source, and the parameter is \<^verbatim>\<open>False\<close>: three jobs are prepared and none is started.
  What holds is the claim for the global: with \<^verbatim>\<open>DRY\<close> true nothing is ever started
  (\<open>main_DRY_launches_nothing\<close>).
\<close>

theorem main_dry_parameter_ignored:
  "fst (prepareJobList ''/fe/Source/Python/submit.py'' ''/fe/Run/Control/CONTROL_EI''
          [(''20130203'', ''20130204''), (''20130205'', ''20130206''), (''20130207'', ''20130207'')]
          ''/data'' (Some 14400) 3 ''EI'' True True fresh_world)
   = Inr [engine_job0, engine_job1, engine_job2]
   \<and> map_option (launched \<circ> snd)
        (main True engine_proc ''/fe'' ''CONTROL_EI'' ''20130203'' ''20130207'' 2 2 ''/data''
           (Some 14400) 3 ''EI'' True False fresh_world)
      = Some []"
proof -
  have b: "breakDownDates ''20130203'' ''20130207'' 2 \<noteq> None"
    using breakDownDates_scenario by simp
  have l: "launched fresh_world = []" by (simp add: fresh_world_def engine_world_def)
  show ?thesis
    using fresh_prepare_verbose main_DRY_launches_nothing[OF b, of engine_proc "''/fe''"
            "''CONTROL_EI''" 2 "''/data''" "Some 14400" 3 "''EI''" True False fresh_world]
    unfolding l by (rule conjI)
qed

lemma engine_run_partial:
  "prepareJobList ''/fe/Source/Python/submit.py'' ''/fe/Run/Control/CONTROL_EI'' engine_dates
     ''/data'' (Some 14400) 3 ''EI'' True False engine_world
   = (Inr [engine_job0, engine_job2], snd (engine_prepare engine_world))"
  using engine_prepare_partial by (simp add: prod_eq_iff engine_prepare_def)

lemma engine_run_fresh:
  "prepareJobList ''/fe/Source/Python/submit.py'' ''/fe/Run/Control/CONTROL_EI'' engine_dates
     ''/data'' (Some 14400) 3 ''EI'' True False fresh_world
   = (Inr [engine_job0, engine_job1, engine_job2], snd (engine_prepare fresh_world))"
  using engine_prepare_fresh by (simp add: prod_eq_iff engine_prepare_def)

lemma engine_run_done:
  "prepareJobList ''/fe/Source/Python/submit.py'' ''/fe/Run/Control/CONTROL_EI'' engine_dates
     ''/data'' (Some 14400) 3 ''EI'' True False done_world
   = (Inr [], snd (engine_prepare done_world))"
  using engine_prepare_done by (simp add: prod_eq_iff engine_prepare_def)

lemma engine_dates_length: "length engine_dates = 3"
  by (simp add: engine_dates_def)

text \<open>
  C8 in the world where job 1 is done: the copies for jobs 0 and 2 have their own paths,
  and the copy for job 0 holds the base text with the dates of job 0.
\<close>

theorem prepareJobList_control_copies_witness:
  "engine_prepare engine_world
     = (Inr [engine_job0, engine_job2], snd (engine_prepare engine_world))
   \<and> distinct (map (\<lambda>j. args_of j ! 4) [engine_job0, engine_job2])
   \<and> args_of engine_job0 ! 4 \<noteq> ''/fe/Run/Control/CONTROL_EI''
   \<and> args_of engine_job2 ! 4 \<noteq> ''/fe/Run/Control/CONTROL_EI''
   \<and> read_file engine_world ''/fe/Run/Control/CONTROL_EI''
     = Inr ''START_DATE 20130101\<newline>FOO 1\<newline>''
   \<and> (\<forall>x. ((fs (snd (engine_prepare engine_world)))(''/fe/Run/Control/CONTROL_EI'' := x))
             (args_of engine_job0 ! 4)
           = Some (File ''END_DATE 20130204\<newline>START_DATE 20130203\<newline>FOO 1\<newline>''))"
proof -
  note t = prepareJobList_control_copies[OF engine_run_partial]
  have a: "engine_prepare engine_world
           = (Inr [engine_job0, engine_job2], snd (engine_prepare engine_world))"
    using engine_run_partial by (simp add: engine_prepare_def)
  have m0: "engine_job0 \<in> set [engine_job0, engine_job2]" by simp
  have m2: "engine_job2 \<in> set [engine_job0, engine_job2]" by simp
  from t[THEN conjunct2, THEN conjunct2] obtain ctrl_str where
    rd: "read_file engine_world ''/fe/Run/Control/CONTROL_EI'' = Inr ctrl_str"
    and c: "\<forall>j\<in>set [engine_job0, engine_job2]. \<forall>x.
              ((fs (snd (engine_prepare engine_world)))(''/fe/Run/Control/CONTROL_EI'' := x))
                (args_of j ! 4)
              = Some (File (snd (replaceControlDates ctrl_str (fst (snd (job_dates_of j)))
                                   (snd (snd (job_dates_of j))))))"
    by blast
  have cs: "ctrl_str = ''START_DATE 20130101\<newline>FOO 1\<newline>''"
    using rd unfolding engine_read by simp
  have dts: "fst (snd (job_dates_of engine_job0)) = ''20130203''"
    "snd (snd (job_dates_of engine_job0)) = ''20130204''"
    by (simp_all add: engine_job0_def)
  have f: "\<forall>x. ((fs (snd (engine_prepare engine_world)))(''/fe/Run/Control/CONTROL_EI'' := x))
             (args_of engine_job0 ! 4)
           = Some (File ''END_DATE 20130204\<newline>START_DATE 20130203\<newline>FOO 1\<newline>'')"
    using c[rule_format, OF m0] unfolding cs dts engine_control_0 by (rule allI)
  show ?thesis
    by (intro conjI a t[THEN conjunct1] engine_read f
          t[THEN conjunct2, THEN conjunct1, rule_format, OF m0]
          t[THEN conjunct2, THEN conjunct1, rule_format, OF m2])
qed

text \<open>
  C2 in the world where job 1 is done (job 1 is reported and left out), and in the world
  where all three jobs are done (the list is empty and \<^verbatim>\<open>main\<close> starts nothing).
\<close>

theorem prepareJobList_skips_done_jobs_witness:
  "engine_prepare engine_world
     = (Inr [engine_job0, engine_job2], snd (engine_prepare engine_world))
   \<and> isSkip engine_world (job_outdir ''/data'' ''EI'' (length engine_dates) 1 (engine_dates ! 1))
   \<and> skip_message (length engine_dates) 1 (engine_dates ! 1)
       \<in> set (stdout (snd (engine_prepare engine_world)))
   \<and> fst (job_dates_of engine_job0) \<noteq> job_id (length engine_dates) 1
   \<and> fst (job_dates_of engine_job2) \<noteq> job_id (length engine_dates) 1
   \<and> launched (snd (engine_prepare engine_world)) = launched engine_world
   \<and> engine_prepare done_world = (Inr [], snd (engine_prepare done_world))
   \<and> isSkip done_world (job_outdir ''/data'' ''EI'' (length engine_dates) 0 (engine_dates ! 0))
   \<and> isSkip done_world (job_outdir ''/data'' ''EI'' (length engine_dates) 1 (engine_dates ! 1))
   \<and> isSkip done_world (job_outdir ''/data'' ''EI'' (length engine_dates) 2 (engine_dates ! 2))
   \<and> breakDownDates ''20130203'' ''20130207'' 2 = Some (Inr engine_dates)
   \<and> checkExeFile done_world ''/fe'' = Inr ''/fe/Source/Python/submit.py''
   \<and> checkControlFile done_world ''/fe'' ''CONTROL_EI''
     = Inr (''/fe/Run/Control'', ''/fe/Run/Control/CONTROL_EI'')
   \<and> (\<exists>r w2. main False engine_proc ''/fe'' ''CONTROL_EI'' ''20130203'' ''20130207'' 2 2 ''/data''
                 (Some 14400) 3 ''EI'' True False done_world = Some (r, w2)
               \<and> launched w2 = launched done_world \<and> kills w2 = kills done_world)"
proof -
  note t = prepareJobList_skips_done_jobs[OF engine_run_partial]
  note u = prepareJobList_skips_done_jobs[OF engine_run_done]
  have a: "engine_prepare engine_world
           = (Inr [engine_job0, engine_job2], snd (engine_prepare engine_world))"
    using engine_run_partial by (simp add: engine_prepare_def)
  have b: "engine_prepare done_world = (Inr [], snd (engine_prepare done_world))"
    using engine_run_done by (simp add: engine_prepare_def)
  have len: "1 < length engine_dates" by (simp add: engine_dates_length)
  note s = t[THEN conjunct1, rule_format, OF len engine_isSkip_1]
  have m0: "engine_job0 \<in> set [engine_job0, engine_job2]" by simp
  have m2: "engine_job2 \<in> set [engine_job0, engine_job2]" by simp
  have dn: "\<forall>i<length engine_dates.
              isSkip done_world (job_outdir ''/data'' ''EI'' (length engine_dates) i (engine_dates ! i))"
  proof (intro allI impI)
    fix i assume "i < length engine_dates"
    then have "i = 0 \<or> i = 1 \<or> i = 2" unfolding engine_dates_length by arith
    then show "isSkip done_world
                 (job_outdir ''/data'' ''EI'' (length engine_dates) i (engine_dates ! i))"
      using done_isSkip by blast
  qed
  have bd: "breakDownDates ''20130203'' ''20130207'' 2 = Some (Inr engine_dates)"
    using breakDownDates_scenario by (simp add: engine_dates_def)
  have h: "breakDownDates ''20130203'' ''20130207'' 2 = Some (Inr engine_dates)
           \<and> checkExeFile done_world ''/fe'' = Inr ''/fe/Source/Python/submit.py''
           \<and> checkControlFile done_world ''/fe'' ''CONTROL_EI''
               = Inr (''/fe/Run/Control'', ''/fe/Run/Control/CONTROL_EI'')"
    by (intro conjI bd done_checks)
  note v = mp[OF u[THEN conjunct2, THEN conjunct2] dn]
  show ?thesis
    by (intro conjI a b engine_isSkip_1 done_isSkip bd done_checks s[THEN conjunct1]
          s[THEN conjunct2, rule_format, OF m0] s[THEN conjunct2, rule_format, OF m2]
          t[THEN conjunct2, THEN conjunct1, unfolded engine_prepare_def[symmetric]]
          v[THEN conjunct2, rule_format, OF h])
qed

section \<open>The job ids\<close>

lemma length_str_nat: "length (str_nat n) = (if n < 10 then 1 else length (str_nat (n div 10)) + 1)"
  by (subst str_nat.simps) simp

lemma length_str_nat_mono: "i \<le> n \<Longrightarrow> length (str_nat i) \<le> length (str_nat n)"
proof (induction n arbitrary: i rule: less_induct)
  case (less n)
  show ?case
  proof (cases "i < 10")
    case True
    then have "length (str_nat i) = 1" by (subst length_str_nat) simp
    moreover have "1 \<le> length (str_nat n)" by (subst length_str_nat) simp
    ultimately show ?thesis by simp
  next
    case False
    then have n10: "\<not> n < 10" using less.prems by simp
    have "i div 10 \<le> n div 10" using less.prems by (rule div_le_mono)
    moreover have "n div 10 < n" using n10 by simp
    ultimately have "length (str_nat (i div 10)) \<le> length (str_nat (n div 10))"
      using less.IH by blast
    then show ?thesis
      using False n10 by (subst length_str_nat, subst (2) length_str_nat) simp
  qed
qed

lemma set_str_nat: "set (str_nat n) \<subseteq> set ''0123456789''"
proof (induction n rule: less_induct)
  case (less n)
  show ?case
  proof (cases "n < 10")
    case True
    then show ?thesis using digit_char_in[of n] by (subst str_nat.simps) simp
  next
    case False
    then have "n div 10 < n" by simp
    from less.IH[OF this] show ?thesis
      using False digit_char_in[of n] by (subst str_nat.simps) simp
  qed
qed

lemma digit_char_nonzero: "0 < k \<Longrightarrow> k < 10 \<Longrightarrow> digit_char k \<noteq> CHR ''0''"
proof -
  assume "0 < k" "k < 10"
  then have "k \<in> {1, 2, 3, 4, 5, 6, 7, 8, 9}" by auto
  then show ?thesis by (auto simp: digit_char_def)
qed

lemma hd_str_nat: "0 < n \<Longrightarrow> hd (str_nat n) \<noteq> CHR ''0''"
proof (induction n rule: less_induct)
  case (less n)
  show ?case
  proof (cases "n < 10")
    case True
    then show ?thesis using less.prems digit_char_nonzero[of n] by (subst str_nat.simps) simp
  next
    case False
    then have "n div 10 < n" "0 < n div 10" by simp_all
    from less.IH[OF this] show ?thesis
      using False str_nat_not_Nil[of "n div 10"] by (subst str_nat.simps) simp
  qed
qed

lemma job_id_padding:
  assumes "i \<le> n"
  shows "length (job_id n i) = length (str_nat n)"
    and "job_id n i = replicate (length (str_nat n) - length (str_nat i)) CHR ''0'' @ str_nat i"
  using length_str_nat_mono[OF assms] by (simp_all add: job_id_def rjust_def)

text \<open>
  C10.  The job list that \<^verbatim>\<open>prepareJobList\<close> returns consists, in order, of the
  dictionaries \<open>job_spec\<close> of the positions whose output folder has no marker.  The
  dictionary of position \<open>i\<close> is a function of \<open>i\<close>, the number \<open>n\<close> of intervals,
  the prefix, the bounds of the interval and the arguments of the call only.  Its id has
  the width of the decimal numeral of \<open>n\<close> and consists of zeros followed by the decimal
  numeral of \<open>i\<close> (digits only, no leading zero unless \<open>i = 0\<close>, of value \<open>i\<close>); the
  log file, the input folder and the output folder are named from the prefix, this id
  and the bounds of the interval.  Two calls with the same arguments, in any two worlds
  (whatever jobs are done there), give equal dictionaries to jobs with equal ids.
\<close>

theorem prepareJobList_job_ids:
  assumes "prepareJobList exe_file ctrl_file date_list outputdir time_out time_out_retry job_prefix
             copy_control verbose w = (Inr job_list, w')"
  shows "job_list
         = map (\<lambda>(i, dateii).
                  job_spec exe_file outputdir time_out time_out_retry job_prefix (length date_list)
                    i dateii
                    (job_control copy_control ctrl_file (fst (path_split ctrl_file))
                       (snd (path_split ctrl_file)) job_prefix (length date_list) i))
               (filter (\<lambda>(i, dateii).
                          \<not> isSkip w (job_outdir outputdir job_prefix (length date_list) i dateii))
                       (enumerate 0 date_list))
         \<and> (\<forall>i<length date_list. \<forall>dateii c.
               let jobii = job_spec exe_file outputdir time_out time_out_retry job_prefix
                             (length date_list) i dateii c;
                   idii = fst (job_dates_of jobii);
                   namesii = job_prefix @ ''_'' @ idii @ ''_'' @ fst dateii @ ''-'' @ snd dateii
               in length idii = length (str_nat (length date_list))
                  \<and> idii = replicate (length idii - length (str_nat i)) CHR ''0'' @ str_nat i
                  \<and> set (str_nat i) \<subseteq> set ''0123456789''
                  \<and> (i = 0 \<or> hd (str_nat i) \<noteq> CHR ''0'')
                  \<and> digits_val (str_nat i) = i
                  \<and> digits_val idii = i
                  \<and> job_dates_of jobii = (idii, fst dateii, snd dateii)
                  \<and> logfile_of jobii = job_prefix @ ''_'' @ idii @ ''.txt''
                  \<and> args_of jobii
                      = [''python'', ''-u'', exe_file, ''--controlfile'', c,
                         ''--inputdir'', path_join outputdir namesii @ ''_tmp'',
                         ''--outputdir'', path_join outputdir namesii @ ''_out''])
         \<and> (\<forall>verbose2 w2 job_list2 w2'.
               prepareJobList exe_file ctrl_file date_list outputdir time_out time_out_retry
                 job_prefix copy_control verbose2 w2 = (Inr job_list2, w2')
               \<longrightarrow> (\<forall>j\<in>set job_list. \<forall>j2\<in>set job_list2.
                      fst (job_dates_of j) = fst (job_dates_of j2) \<longrightarrow> j = j2))"
proof (intro conjI allI impI ballI)
  show "job_list
         = map (\<lambda>(i, dateii).
                  job_spec exe_file outputdir time_out time_out_retry job_prefix (length date_list)
                    i dateii
                    (job_control copy_control ctrl_file (fst (path_split ctrl_file))
                       (snd (path_split ctrl_file)) job_prefix (length date_list) i))
               (filter (\<lambda>(i, dateii).
                          \<not> isSkip w (job_outdir outputdir job_prefix (length date_list) i dateii))
                       (enumerate 0 date_list))"
    by (rule prepareJobList_jobs[OF assms])
next
  fix i dateii c
  assume i: "i < length date_list"
  define n where "n = length date_list"
  have le: "i \<le> n" using i by (simp add: n_def)
  have z: "i = 0 \<or> hd (str_nat i) \<noteq> CHR ''0''" using hd_str_nat[of i] by auto
  show "let jobii = job_spec exe_file outputdir time_out time_out_retry job_prefix
                             (length date_list) i dateii c;
                   idii = fst (job_dates_of jobii);
                   namesii = job_prefix @ ''_'' @ idii @ ''_'' @ fst dateii @ ''-'' @ snd dateii
               in length idii = length (str_nat (length date_list))
                  \<and> idii = replicate (length idii - length (str_nat i)) CHR ''0'' @ str_nat i
                  \<and> set (str_nat i) \<subseteq> set ''0123456789''
                  \<and> (i = 0 \<or> hd (str_nat i) \<noteq> CHR ''0'')
                  \<and> digits_val (str_nat i) = i
                  \<and> digits_val idii = i
                  \<and> job_dates_of jobii = (idii, fst dateii, snd dateii)
                  \<and> logfile_of jobii = job_prefix @ ''_'' @ idii @ ''.txt''
                  \<and> args_of jobii
                      = [''python'', ''-u'', exe_file, ''--controlfile'', c,
                         ''--inputdir'', path_join outputdir namesii @ ''_tmp'',
                         ''--outputdir'', path_join outputdir namesii @ ''_out'']"
    unfolding Let_def n_def[symmetric] job_spec_fields fst_conv
  proof (intro conjI)
    show "length (job_id n i) = length (str_nat n)" by (rule job_id_padding(1)[OF le])
    show "job_id n i = replicate (length (job_id n i) - length (str_nat i)) CHR ''0'' @ str_nat i"
      unfolding job_id_padding(1)[OF le] by (rule job_id_padding(2)[OF le])
    show "set (str_nat i) \<subseteq> set ''0123456789''" by (rule set_str_nat)
    show "i = 0 \<or> hd (str_nat i) \<noteq> CHR ''0''" by (rule z)
    show "digits_val (str_nat i) = i" by (rule digits_val_str_nat)
    show "digits_val (job_id n i) = i" by (rule digits_val_job_id)
    show "(job_id n i, fst dateii, snd dateii) = (job_id n i, fst dateii, snd dateii)" by (rule refl)
    show "job_prefix @ ''_'' @ job_id n i @ ''.txt'' = job_prefix @ ''_'' @ job_id n i @ ''.txt''"
      by (rule refl)
    show "[''python'', ''-u'', exe_file, ''--controlfile'', c, ''--inputdir'',
           job_outputdir outputdir job_prefix (job_id n i) (fst dateii) (snd dateii) @ ''_tmp'',
           ''--outputdir'',
           job_outputdir outputdir job_prefix (job_id n i) (fst dateii) (snd dateii) @ ''_out'']
          = [''python'', ''-u'', exe_file, ''--controlfile'', c, ''--inputdir'',
             path_join outputdir
               (job_prefix @ ''_'' @ job_id n i @ ''_'' @ fst dateii @ ''-'' @ snd dateii) @ ''_tmp'',
             ''--outputdir'',
             path_join outputdir
               (job_prefix @ ''_'' @ job_id n i @ ''_'' @ fst dateii @ ''-'' @ snd dateii) @ ''_out'']"
      by (simp add: job_outputdir_def)
  qed
next
  fix verbose2 w2 job_list2 w2' j j2
  assume b: "prepareJobList exe_file ctrl_file date_list outputdir time_out time_out_retry
                 job_prefix copy_control verbose2 w2 = (Inr job_list2, w2')"
    and j: "j \<in> set job_list" and j2: "j2 \<in> set job_list2"
    and eq: "fst (job_dates_of j) = fst (job_dates_of j2)"
  from job_in_list[OF assms j] obtain i d where
    i: "(i, d) \<in> set (enumerate 0 date_list)"
    "j = job_spec exe_file outputdir time_out time_out_retry job_prefix (length date_list) i d
           (job_control copy_control ctrl_file (fst (path_split ctrl_file))
              (snd (path_split ctrl_file)) job_prefix (length date_list) i)"
    by blast
  from job_in_list[OF b j2] obtain i2 d2 where
    i2: "(i2, d2) \<in> set (enumerate 0 date_list)"
    "j2 = job_spec exe_file outputdir time_out time_out_retry job_prefix (length date_list) i2 d2
           (job_control copy_control ctrl_file (fst (path_split ctrl_file))
              (snd (path_split ctrl_file)) job_prefix (length date_list) i2)"
    by blast
  have "job_id (length date_list) i = job_id (length date_list) i2"
    using eq by (simp add: i(2) i2(2) job_spec_fields)
  then have "i = i2" by (rule job_id_inj)
  moreover have "d = d2" using i(1) i2(1) \<open>i = i2\<close> by (simp add: in_set_enumerate_eq)
  ultimately show "j = j2" using i(2) i2(2) by simp
qed

lemma ten_ids:
  "map_sum id (map (fst \<circ> job_dates_of))
     (fst (prepareJobList ''/fe/Source/Python/submit.py'' ''/fe/Run/Control/CONTROL_EI'' ten_dates
             ''/data'' (Some 14400) 3 ''EI'' False False ten_world))
   = Inr [''00'', ''01'', ''02'', ''04'', ''05'', ''06'', ''07'', ''08'', ''09'']"
  by code_simp

lemma ten_fresh_ids:
  "map_sum id (map (fst \<circ> job_dates_of))
     (fst (prepareJobList ''/fe/Source/Python/submit.py'' ''/fe/Run/Control/CONTROL_EI'' ten_dates
             ''/data'' (Some 14400) 3 ''EI'' False False ten_fresh_world))
   = Inr [''00'', ''01'', ''02'', ''03'', ''04'', ''05'', ''06'', ''07'', ''08'', ''09'']"
  by code_simp

lemma ten_dates_length: "length ten_dates = 10"
  by (simp add: ten_dates_def)

lemma ten_job_9:
  "job_spec ''/fe/Source/Python/submit.py'' ''/data'' (Some 14400) 3 ''EI'' (length ten_dates) 9
     (''20130210'', ''20130210'') ''/fe/Run/Control/CONTROL_EI''
   = \<lparr>args_of = [''python'', ''-u'', ''/fe/Source/Python/submit.py'',
                  ''--controlfile'', ''/fe/Run/Control/CONTROL_EI'',
                  ''--inputdir'', ''/data/EI_09_20130210-20130210_tmp'',
                  ''--outputdir'', ''/data/EI_09_20130210-20130210_out''],
      job_dates_of = (''09'', ''20130210'', ''20130210''),
      timeout_of = Some 14400, logfile_of = ''EI_09.txt'', retry_of = 3\<rparr>"
  unfolding ten_dates_length by code_simp

lemma ten_str_nat: "str_nat 9 = ''9''" "str_nat 10 = ''10''"
  by code_simp+

text \<open>
  C10 at ten intervals, in the world where the job at position 3 is done and in the world
  where no job is done: the ids have two characters, \<^verbatim>\<open>00\<close> to \<^verbatim>\<open>09\<close>; position 9 gets
  \<^verbatim>\<open>09\<close>, one zero before the numeral of 9, and the names built from it; the jobs that
  both lists hold are the same in both.
\<close>

theorem prepareJobList_job_ids_witness:
  "\<exists>job_list w' job_list2 w2'.
     prepareJobList ''/fe/Source/Python/submit.py'' ''/fe/Run/Control/CONTROL_EI'' ten_dates
       ''/data'' (Some 14400) 3 ''EI'' False False ten_world = (Inr job_list, w')
     \<and> prepareJobList ''/fe/Source/Python/submit.py'' ''/fe/Run/Control/CONTROL_EI'' ten_dates
         ''/data'' (Some 14400) 3 ''EI'' False False ten_fresh_world = (Inr job_list2, w2')
     \<and> map (fst \<circ> job_dates_of) job_list
       = [''00'', ''01'', ''02'', ''04'', ''05'', ''06'', ''07'', ''08'', ''09'']
     \<and> map (fst \<circ> job_dates_of) job_list2
       = [''00'', ''01'', ''02'', ''03'', ''04'', ''05'', ''06'', ''07'', ''08'', ''09'']
     \<and> job_list
       = map (\<lambda>(i, dateii).
                job_spec ''/fe/Source/Python/submit.py'' ''/data'' (Some 14400) 3 ''EI''
                  (length ten_dates) i dateii
                  (job_control False ''/fe/Run/Control/CONTROL_EI''
                     (fst (path_split ''/fe/Run/Control/CONTROL_EI''))
                     (snd (path_split ''/fe/Run/Control/CONTROL_EI'')) ''EI''
                     (length ten_dates) i))
             (filter (\<lambda>(i, dateii).
                        \<not> isSkip ten_world (job_outdir ''/data'' ''EI'' (length ten_dates) i dateii))
                     (enumerate 0 ten_dates))
     \<and> (9 :: nat) < length ten_dates
     \<and> length ''09'' = length (str_nat (length ten_dates))
     \<and> ''09'' = replicate (length ''09'' - length (str_nat 9)) CHR ''0'' @ str_nat 9
     \<and> digits_val ''09'' = 9
     \<and> job_spec ''/fe/Source/Python/submit.py'' ''/data'' (Some 14400) 3 ''EI'' (length ten_dates) 9
         (''20130210'', ''20130210'') ''/fe/Run/Control/CONTROL_EI''
       = \<lparr>args_of = [''python'', ''-u'', ''/fe/Source/Python/submit.py'',
                      ''--controlfile'', ''/fe/Run/Control/CONTROL_EI'',
                      ''--inputdir'', ''/data/EI_09_20130210-20130210_tmp'',
                      ''--outputdir'', ''/data/EI_09_20130210-20130210_out''],
          job_dates_of = (''09'', ''20130210'', ''20130210''),
          timeout_of = Some 14400, logfile_of = ''EI_09.txt'', retry_of = 3\<rparr>
     \<and> list_all (\<lambda>j. list_all (\<lambda>j2. fst (job_dates_of j) = fst (job_dates_of j2) \<longrightarrow> j = j2)
                            job_list2) job_list"
proof -
  obtain r w' where p: "prepareJobList ''/fe/Source/Python/submit.py''
      ''/fe/Run/Control/CONTROL_EI'' ten_dates ''/data'' (Some 14400) 3 ''EI'' False False ten_world
      = (r, w')"
    by (cases "prepareJobList ''/fe/Source/Python/submit.py''
      ''/fe/Run/Control/CONTROL_EI'' ten_dates ''/data'' (Some 14400) 3 ''EI'' False False ten_world")
  obtain r2 w2' where p2: "prepareJobList ''/fe/Source/Python/submit.py''
      ''/fe/Run/Control/CONTROL_EI'' ten_dates ''/data'' (Some 14400) 3 ''EI'' False False
      ten_fresh_world = (r2, w2')"
    by (cases "prepareJobList ''/fe/Source/Python/submit.py''
      ''/fe/Run/Control/CONTROL_EI'' ten_dates ''/data'' (Some 14400) 3 ''EI'' False False
      ten_fresh_world")
  from ten_ids obtain job_list where r: "r = Inr job_list"
    and ids: "map (fst \<circ> job_dates_of) job_list
              = [''00'', ''01'', ''02'', ''04'', ''05'', ''06'', ''07'', ''08'', ''09'']"
    unfolding p by (cases r) simp_all
  from ten_fresh_ids obtain job_list2 where r2: "r2 = Inr job_list2"
    and ids2: "map (fst \<circ> job_dates_of) job_list2
              = [''00'', ''01'', ''02'', ''03'', ''04'', ''05'', ''06'', ''07'', ''08'', ''09'']"
    unfolding p2 by (cases r2) simp_all
  note h = p[unfolded r] and h2 = p2[unfolded r2]
  note t = prepareJobList_job_ids[OF h]
  have len: "(9 :: nat) < length ten_dates" by (simp add: ten_dates_length)
  note u = t[THEN conjunct2, THEN conjunct1, rule_format, OF len,
             of "(''20130210'', ''20130210'')" "''/fe/Run/Control/CONTROL_EI''",
             unfolded Let_def ten_job_9 job.simps fst_conv]
  have same: "list_all (\<lambda>j. list_all (\<lambda>j2. fst (job_dates_of j) = fst (job_dates_of j2) \<longrightarrow> j = j2)
                            job_list2) job_list"
    unfolding list_all_iff
    using t[THEN conjunct2, THEN conjunct2, rule_format, OF h2] by blast
  show ?thesis
    by (intro exI[of _ job_list] exI[of _ w'] exI[of _ job_list2] exI[of _ w2'] conjI
          h h2 ids ids2 t[THEN conjunct1] len ten_job_9 same
          u[THEN conjunct1] u[THEN conjunct2, THEN conjunct1]
          u[THEN conjunct2, THEN conjunct2, THEN conjunct2, THEN conjunct2, THEN conjunct2,
            THEN conjunct1])
qed

end
